theory Spec2Isabelle
  imports Complex_Main
begin

section \<open>Lead management: the status engine and its analytics\<close>

text \<open>
  A shallow embedding of the backend of the lead tracker: the Lead schema with its
  pre-save middleware and instance methods (models/Lead.js), the phone formatter of
  utils/validators.js, and the analytics and bulk handlers of
  controllers/leadController.js.

  Conventions of the embedding.
  \<^item> A JavaScript string is a \<open>string\<close>; one \<open>char\<close> stands for one code unit, so the
    model covers the code units 0 to 255.
  \<^item> \<open>undefined\<close> is \<open>None\<close>; a Date is its number of milliseconds since the epoch.
  \<^item> A Mongoose document is the record \<open>lead\<close>: the stored fields, together with the
    bookkeeping Mongoose keeps on a document in memory (\<open>isNew\<close>, the paths loaded from
    the store, the paths modified since the last save) and the transient property
    \<open>_statusNotes\<close>. The field \<open>updatedAt\<close>, which no function of the core reads, is left
    out.
  \<^item> The clock reading of a save (\<open>new Date()\<close>) is the parameter \<open>now\<close>; the write to
    the database is the parameter \<open>dbWrite\<close>, which answers \<open>None\<close> when the write goes
    through and \<open>Some msg\<close> when the database rejects it. Which strings the driver
    casts to an identifier is the parameter \<open>castable\<close>.
  \<^item> A JavaScript number is the rational it denotes; an arithmetic operation returns the
    double nearest to the exact result.
\<close>

subsection \<open>Characters and strings\<close>

definition isDigit :: "char \<Rightarrow> bool" where
  \<comment> \<open>the class \<open>\d\<close>; \<open>\D\<close> is its complement\<close>
  "isDigit c = (48 \<le> (of_char c :: nat) \<and> (of_char c :: nat) \<le> 57)"

definition isUpper :: "char \<Rightarrow> bool" where
  "isUpper c = (65 \<le> (of_char c :: nat) \<and> (of_char c :: nat) \<le> 90)"

definition isLower :: "char \<Rightarrow> bool" where
  "isLower c = (97 \<le> (of_char c :: nat) \<and> (of_char c :: nat) \<le> 122)"

definition isAlpha :: "char \<Rightarrow> bool" where
  \<comment> \<open>the class \<open>[a-zA-Z]\<close>\<close>
  "isAlpha c = (isUpper c \<or> isLower c)"

definition isSpace :: "char \<Rightarrow> bool" where
  \<comment> \<open>the class \<open>\s\<close>, which is also what \<open>trim\<close> removes: TAB, LF, VT, FF, CR, SP, NBSP\<close>
  "isSpace c = ((of_char c :: nat) \<in> {9, 10, 11, 12, 13, 32, 160})"

definition isWordChar :: "char \<Rightarrow> bool" where
  \<comment> \<open>the class \<open>\w\<close>: \<open>[A-Za-z0-9_]\<close>\<close>
  "isWordChar c = (isAlpha c \<or> isDigit c \<or> c = CHR ''_'')"

definition toUpperChar :: "char \<Rightarrow> char" where
  \<comment> \<open>\<open>toUpperCase\<close> on a character of \<open>\w\<close>\<close>
  "toUpperChar c = (if isLower c then char_of ((of_char c :: nat) - 32) else c)"

definition toLowerChar :: "char \<Rightarrow> char" where
  \<comment> \<open>\<open>toLowerCase\<close> on one code unit: the ASCII letters and the Latin-1 capitals\<close>
  "toLowerChar c =
     (if isUpper c \<or> (192 \<le> (of_char c :: nat) \<and> (of_char c :: nat) \<le> 222 \<and> (of_char c :: nat) \<noteq> 215)
      then char_of ((of_char c :: nat) + 32) else c)"

definition toLowerCase :: "string \<Rightarrow> string" where
  "toLowerCase s = map toLowerChar s"

definition trim :: "string \<Rightarrow> string" where
  "trim s = rev (dropWhile isSpace (rev (dropWhile isSpace s)))"

definition truthy :: "string option \<Rightarrow> bool" where
  \<comment> \<open>a string-valued property in a condition: \<open>undefined\<close> and \<open>''\<close> are falsy\<close>
  "truthy v = (case v of None \<Rightarrow> False | Some s \<Rightarrow> s \<noteq> [])"

text \<open>
  \<^verbatim>\<open>phone.replace(/(?!^\+)\D/g, '')\<close> (utils/validators.js, \<open>formatPhoneNumber\<close>, and the
  same expression in the pre-save middleware). The scan visits every position; the
  lookahead \<^verbatim>\<open>(?!^\+)\<close> fails exactly at position 0 when the first character is \<open>+\<close>,
  and everywhere else a character of \<open>\D\<close> is matched and replaced by nothing. The flag
  is true at position 0 only.
\<close>

fun stripNonDigits :: "bool \<Rightarrow> string \<Rightarrow> string" where
  "stripNonDigits atStart [] = []"
| "stripNonDigits atStart (c # cs) =
     (if \<not> (atStart \<and> c = CHR ''+'') \<and> \<not> isDigit c
      then stripNonDigits False cs
      else c # stripNonDigits False cs)"

definition formatPhoneNumber :: "string \<Rightarrow> string" where
  "formatPhoneNumber phone = stripNonDigits True phone"

text \<open>
  \<^verbatim>\<open>str.replace(/\b\w+/g, word => word.charAt(0).toUpperCase() + word.slice(1).toLowerCase())\<close>:
  every maximal run of word characters is one match. The flag says whether the previous
  character belongs to the current run.
\<close>

fun capitalizeFrom :: "bool \<Rightarrow> string \<Rightarrow> string" where
  "capitalizeFrom inWord [] = []"
| "capitalizeFrom inWord (c # cs) =
     (if isWordChar c
      then (if inWord then toLowerChar c else toUpperChar c) # capitalizeFrom True cs
      else c # capitalizeFrom False cs)"

definition capitalizeWords :: "string \<Rightarrow> string" where
  "capitalizeWords str = capitalizeFrom False str"

subsection \<open>The Lead schema\<close>

definition validStatuses :: "string list" where
  "validStatuses = [''new'', ''connected'', ''qualified'', ''converted'']"

definition validSources :: "string list" where
  "validSources = [''website'', ''linkedin'', ''referral'', ''cold-call'', ''email'']"

record history_entry =
  h_status :: string
  h_timestamp :: int
  h_notes :: "string option"

record status_timestamps =
  connectedAt :: "int option"
  qualifiedAt :: "int option"
  convertedAt :: "int option"

record lead =
  leadId :: string
  name :: "string option"
  firstName :: "string option"
  lastName :: "string option"
  company :: "string option"
  email :: string
  phone :: string
  status :: string
  statusHistory :: "history_entry list"
  statusTimestamps :: status_timestamps
  source :: string
  "notes" :: "string option"
  createdAt :: int
  isNew :: bool
  initPaths :: "string list"
  modifiedPaths :: "string list"
  statusNotes :: "string option"

text \<open>The data \<open>createLead\<close> hands to the constructor (\<open>sanitizedData\<close>): it has no status.\<close>

record lead_input =
  in_name :: "string option"
  in_firstName :: "string option"
  in_lastName :: "string option"
  in_email :: string
  in_phone :: string
  in_company :: "string option"
  in_source :: "string option"
  in_notes :: "string option"

datatype error =
  InvalidStatus string
  | ValidationError "string list"
  | StoreError string

subsection \<open>Schema validation\<close>

definition isNameChar :: "char \<Rightarrow> bool" where
  \<comment> \<open>the class \<^verbatim>\<open>[a-zA-Z\s\-']\<close>\<close>
  "isNameChar c = (isAlpha c \<or> isSpace c \<or> c = CHR ''-'' \<or> c = CHR 0x27)"

definition matchesName :: "string \<Rightarrow> bool" where
  \<comment> \<open>\<^verbatim>\<open>/^[a-zA-Z\s\-']+$/.test(v)\<close>\<close>
  "matchesName v = (v \<noteq> [] \<and> list_all isNameChar v)"

definition isLocalChar :: "char \<Rightarrow> bool" where
  \<comment> \<open>the class \<^verbatim>\<open>[a-zA-Z0-9._%+-]\<close>\<close>
  "isLocalChar c = (isAlpha c \<or> isDigit c \<or> c \<in> {CHR ''.'', CHR ''_'', CHR ''%'', CHR ''+'', CHR ''-''})"

definition isDomainChar :: "char \<Rightarrow> bool" where
  \<comment> \<open>the class \<^verbatim>\<open>[a-zA-Z0-9.-]\<close>\<close>
  "isDomainChar c = (isAlpha c \<or> isDigit c \<or> c = CHR ''.'' \<or> c = CHR ''-'')"

definition matchesEmail :: "string \<Rightarrow> bool" where
  \<comment> \<open>\<^verbatim>\<open>/^[a-zA-Z0-9._%+-]+@[a-zA-Z0-9.-]+\.[a-zA-Z]{2,}$/.test(v)\<close>: the local part ends at
      the first \<open>@\<close> (no class contains it), the top-level part starts after the last dot\<close>
  "matchesEmail v =
     (let localPart = takeWhile (\<lambda>c. c \<noteq> CHR ''@'') v;
          rest = drop (length localPart + 1) v;
          tld = rev (takeWhile (\<lambda>c. c \<noteq> CHR ''.'') (rev rest));
          domain = take (length rest - length tld - 1) rest
      in length localPart < length v \<and> localPart \<noteq> [] \<and> list_all isLocalChar localPart
         \<and> length tld < length rest \<and> domain \<noteq> [] \<and> list_all isDomainChar domain
         \<and> 2 \<le> length tld \<and> list_all isAlpha tld)"

definition phoneDigitsOk :: "string \<Rightarrow> bool" where
  \<comment> \<open>the validator of \<open>phone\<close>: 10 to 15 digits once \<open>\D\<close> is removed\<close>
  "phoneDigitsOk v = (let digitsOnly = filter isDigit v in 10 \<le> length digitsOnly \<and> length digitsOnly \<le> 15)"

definition checkOptional :: "string \<Rightarrow> string option \<Rightarrow> (string \<Rightarrow> bool) \<Rightarrow> string list" where
  \<comment> \<open>Mongoose runs the validators of a path only on a value that is not \<open>undefined\<close>\<close>
  "checkOptional path v ok = (case v of None \<Rightarrow> [] | Some s \<Rightarrow> if ok s then [] else [path])"

definition nameValidator :: "lead \<Rightarrow> string \<Rightarrow> bool" where
  \<comment> \<open>the custom validator of \<open>name\<close>\<close>
  "nameValidator d v =
     (if v \<noteq> [] then matchesName v
      else if \<not> truthy (firstName d) \<or> \<not> truthy (lastName d) then False
      else True)"

definition partNameValidator :: "string \<Rightarrow> bool" where
  \<comment> \<open>the custom validator of \<open>firstName\<close> and of \<open>lastName\<close>\<close>
  "partNameValidator v = (if v \<noteq> [] then matchesName v else True)"

definition entryValid :: "history_entry \<Rightarrow> bool" where
  "entryValid e =
     (h_status e \<in> set validStatuses
      \<and> (case h_notes e of None \<Rightarrow> True | Some n \<Rightarrow> length n \<le> 200))"

definition failingPaths :: "lead \<Rightarrow> string list" where
  \<comment> \<open>the paths whose value fails a validator the schema declares\<close>
  "failingPaths d =
     checkOptional ''name'' (name d) (\<lambda>v. 2 \<le> length v \<and> length v \<le> 50 \<and> nameValidator d v)
     @ checkOptional ''firstName'' (firstName d) (\<lambda>v. 2 \<le> length v \<and> length v \<le> 25 \<and> partNameValidator v)
     @ checkOptional ''lastName'' (lastName d) (\<lambda>v. 2 \<le> length v \<and> length v \<le> 25 \<and> partNameValidator v)
     @ checkOptional ''company'' (company d) (\<lambda>v. length v \<le> 100)
     @ (if email d \<noteq> [] \<and> length (email d) \<le> 100 \<and> matchesEmail (email d) then [] else [''email''])
     @ (if phone d \<noteq> [] \<and> phoneDigitsOk (phone d) then [] else [''phone''])
     @ (if status d \<in> set validStatuses then [] else [''status''])
     @ (if list_all entryValid (statusHistory d) then [] else [''statusHistory''])
     @ (if source d \<in> set validSources then [] else [''source''])
     @ checkOptional ''notes'' (notes d) (\<lambda>v. length v \<le> 500)"

text \<open>
  Which paths a save validates. Mongoose validates the required paths, the paths loaded
  from the store and the paths modified since the last save; on a new document that is
  every path. A document that was constructed and saved, and is still held in memory,
  has no loaded path, so a later save validates \<open>email\<close>, \<open>phone\<close> and what was modified.
\<close>

definition allPaths :: "string list" where
  "allPaths = [''name'', ''firstName'', ''lastName'', ''company'', ''email'', ''phone'', ''status'',
     ''statusHistory'', ''statusTimestamps'', ''source'', ''notes'']"

definition pathsToValidate :: "lead \<Rightarrow> string list" where
  "pathsToValidate d =
     (if isNew d then allPaths else [''email'', ''phone''] @ initPaths d @ modifiedPaths d)"

definition validateLead :: "lead \<Rightarrow> string list" where
  \<comment> \<open>the errors of the validation that precedes the middleware\<close>
  "validateLead d = filter (\<lambda>p. p \<in> set (pathsToValidate d)) (failingPaths d)"

subsection \<open>Assignments to a document\<close>

text \<open>
  An assignment \<open>this.path = value\<close> runs the setter of the path (\<open>trim\<close> on the string
  paths that declare it) and marks the path modified on a new document, and on a stored
  one only when the value differs from the value the path has. A modified path no
  longer counts as loaded.
\<close>

definition isModified :: "string \<Rightarrow> lead \<Rightarrow> bool" where
  "isModified p d = (p \<in> set (modifiedPaths d))"

definition markModified :: "string \<Rightarrow> lead \<Rightarrow> lead" where
  "markModified p d =
     d\<lparr>initPaths := removeAll p (initPaths d), modifiedPaths := List.insert p (modifiedPaths d)\<rparr>"

definition setPhone :: "string \<Rightarrow> lead \<Rightarrow> lead" where
  "setPhone v d =
     (if isNew d \<or> phone d \<noteq> trim v then markModified ''phone'' (d\<lparr>phone := trim v\<rparr>) else d)"

definition setName :: "string \<Rightarrow> lead \<Rightarrow> lead" where
  "setName v d =
     (if isNew d \<or> name d \<noteq> Some (trim v) then markModified ''name'' (d\<lparr>name := Some (trim v)\<rparr>) else d)"

definition setFirstName :: "string \<Rightarrow> lead \<Rightarrow> lead" where
  "setFirstName v d =
     (if isNew d \<or> firstName d \<noteq> Some (trim v)
      then markModified ''firstName'' (d\<lparr>firstName := Some (trim v)\<rparr>) else d)"

definition setLastName :: "string \<Rightarrow> lead \<Rightarrow> lead" where
  "setLastName v d =
     (if isNew d \<or> lastName d \<noteq> Some (trim v)
      then markModified ''lastName'' (d\<lparr>lastName := Some (trim v)\<rparr>) else d)"

definition setCompany :: "string \<Rightarrow> lead \<Rightarrow> lead" where
  "setCompany v d =
     (if isNew d \<or> company d \<noteq> Some (trim v)
      then markModified ''company'' (d\<lparr>company := Some (trim v)\<rparr>) else d)"

text \<open>
  The assignment \<open>this.status = newStatus\<close> of \<open>updateStatus\<close>. The middleware reads its
  effect through \<open>this.isModified('status')\<close>, and it is written for this: its comment on
  the branch that pushes an entry reads "Add new status to history if status changed".
\<close>

definition setStatus :: "string \<Rightarrow> lead \<Rightarrow> lead" where
  "setStatus newStatus d =
     (if isNew d \<or> status d \<noteq> newStatus
      then markModified ''status'' (d\<lparr>status := newStatus\<rparr>)
      else d)"

subsection \<open>Construction and the pre-save middleware\<close>

definition noTimestamps :: status_timestamps where
  "noTimestamps = \<lparr>connectedAt = None, qualifiedAt = None, convertedAt = None\<rparr>"

definition newLead :: "string \<Rightarrow> lead_input \<Rightarrow> lead" where
  \<comment> \<open>\<open>new Lead(sanitizedData)\<close>: the setters (\<open>trim\<close>, \<open>lowercase\<close>) and the defaults of the
      schema; \<open>newId\<close> is the identifier Mongoose generates\<close>
  "newLead newId inp =
     \<lparr>leadId = newId,
      name = map_option trim (in_name inp),
      firstName = map_option trim (in_firstName inp),
      lastName = map_option trim (in_lastName inp),
      company = map_option trim (in_company inp),
      email = trim (toLowerCase (in_email inp)),
      phone = trim (in_phone inp),
      status = ''new'',
      statusHistory = [],
      statusTimestamps = noTimestamps,
      source = (case in_source inp of None \<Rightarrow> ''website'' | Some s \<Rightarrow> s),
      notes = map_option trim (in_notes inp),
      createdAt = 0,
      isNew = True,
      initPaths = [],
      modifiedPaths = [''name'', ''firstName'', ''lastName'', ''email'', ''phone'', ''company'', ''source'', ''notes''],
      statusNotes = None\<rparr>"

definition normalizeFields :: "lead \<Rightarrow> lead" where
  \<comment> \<open>the first part of the middleware: phone, derived name, capitalisation, company\<close>
  "normalizeFields d =
     (let d1 = (if phone d \<noteq> [] then setPhone (formatPhoneNumber (phone d)) d else d);
          d2 = (if \<not> truthy (name d1) \<and> truthy (firstName d1) \<and> truthy (lastName d1)
                then setName (the (firstName d1) @ '' '' @ the (lastName d1)) d1 else d1);
          d3 = (if truthy (name d2) then setName (capitalizeWords (the (name d2))) d2 else d2);
          d4 = (if truthy (firstName d3) then setFirstName (capitalizeWords (the (firstName d3))) d3 else d3);
          d5 = (if truthy (lastName d4) then setLastName (capitalizeWords (the (lastName d4))) d4 else d4)
      in if truthy (company d5) then setCompany (trim (the (company d5))) d5 else d5)"

definition pushHistory :: "int \<Rightarrow> lead \<Rightarrow> lead" where
  \<comment> \<open>the branch \<open>isNew\<close> seeds the history; otherwise one entry is pushed, with the
      pending note if there is one, and the pending note is deleted\<close>
  "pushHistory now d =
     markModified ''statusHistory''
       (if isNew d
        then d\<lparr>statusHistory := [\<lparr>h_status = status d, h_timestamp = now, h_notes = None\<rparr>]\<rparr>
        else if truthy (statusNotes d)
        then d\<lparr>statusHistory := statusHistory d @ [\<lparr>h_status = status d, h_timestamp = now, h_notes = statusNotes d\<rparr>],
               statusNotes := None\<rparr>
        else d\<lparr>statusHistory := statusHistory d @ [\<lparr>h_status = status d, h_timestamp = now, h_notes = None\<rparr>]\<rparr>)"

definition stampStatus :: "int \<Rightarrow> string \<Rightarrow> status_timestamps \<Rightarrow> status_timestamps" where
  \<comment> \<open>the \<open>switch\<close> on the current status; a Date that is set is truthy\<close>
  "stampStatus now currentStatus ts =
     (if currentStatus = ''connected''
      then (if connectedAt ts = None then ts\<lparr>connectedAt := Some now\<rparr> else ts)
      else if currentStatus = ''qualified''
      then (if qualifiedAt ts = None then ts\<lparr>qualifiedAt := Some now\<rparr> else ts)
      else if currentStatus = ''converted''
      then (if convertedAt ts = None then ts\<lparr>convertedAt := Some now\<rparr> else ts)
      else ts)"

definition preSave :: "int \<Rightarrow> lead \<Rightarrow> lead" where
  \<comment> \<open>\<open>leadSchema.pre('save', ...)\<close>; the three stage timestamps are tracked as one path\<close>
  "preSave now d =
     (let d1 = normalizeFields d
      in if isModified ''status'' d1 \<or> isNew d1
         then (let d2 = pushHistory now d1;
                   ts = stampStatus now (status d1) (statusTimestamps d2)
               in if ts = statusTimestamps d2 then d2
                  else markModified ''statusTimestamps'' (d2\<lparr>statusTimestamps := ts\<rparr>))
         else d1)"

text \<open>
  \<open>save()\<close>: Mongoose validates the document, runs the pre-save middleware, and writes. A
  stored document on which nothing is modified is not written, and the save succeeds
  without the database. A rejection carries the document as the failed call leaves it
  in memory. After a successful write the document is no longer new and no path counts
  as modified; an insert stamps \<open>createdAt\<close>.
\<close>

definition save :: "(lead \<Rightarrow> string option) \<Rightarrow> int \<Rightarrow> lead \<Rightarrow> (error \<times> lead) + lead" where
  "save dbWrite now d =
     (if validateLead d \<noteq> [] then Inl (ValidationError (validateLead d), d)
      else (let d1 = preSave now d
            in if \<not> isNew d1 \<and> modifiedPaths d1 = [] then Inr d1
               else (case dbWrite d1 of
                       Some msg \<Rightarrow> Inl (StoreError msg, d1)
                     | None \<Rightarrow> Inr (d1\<lparr>createdAt := (if isNew d1 then now else createdAt d1),
                                       isNew := False, modifiedPaths := []\<rparr>))))"

definition Construct :: "(lead \<Rightarrow> string option) \<Rightarrow> string \<Rightarrow> int \<Rightarrow> lead_input \<Rightarrow> (error \<times> lead) + lead" where
  \<comment> \<open>\<open>new Lead(sanitizedData)\<close> followed by \<open>save()\<close>\<close>
  "Construct dbWrite newId now inp = save dbWrite now (newLead newId inp)"

subsection \<open>Status transitions\<close>

definition updateStatus :: "(lead \<Rightarrow> string option) \<Rightarrow> int \<Rightarrow> string \<Rightarrow> string option \<Rightarrow> lead \<Rightarrow> (error \<times> lead) + lead" where
  \<comment> \<open>\<open>leadSchema.methods.updateStatus\<close>\<close>
  "updateStatus dbWrite now newStatus notesArg d =
     (if newStatus \<notin> set validStatuses then Inl (InvalidStatus newStatus, d)
      else (let d1 = setStatus newStatus d;
                d2 = (if truthy notesArg \<and> statusHistory d1 \<noteq> [] then d1\<lparr>statusNotes := notesArg\<rparr> else d1)
            in save dbWrite now d2))"

text \<open>A run of transitions on one document; the first rejection ends it.\<close>

fun applyTransitions :: "(lead \<Rightarrow> string option) \<Rightarrow> (int \<times> string \<times> string option) list \<Rightarrow> lead \<Rightarrow> (error \<times> lead) + lead" where
  "applyTransitions dbWrite [] d = Inr d"
| "applyTransitions dbWrite ((now, newStatus, notesArg) # ts) d =
     (case updateStatus dbWrite now newStatus notesArg d of
        Inl e \<Rightarrow> Inl e
      | Inr d' \<Rightarrow> applyTransitions dbWrite ts d')"

text \<open>The document as a failed or successful call leaves it in memory.\<close>

definition docAfter :: "(error \<times> lead) + lead \<Rightarrow> lead" where
  "docAfter r = (case r of Inl (e, d) \<Rightarrow> d | Inr d \<Rightarrow> d)"

subsection \<open>Progression metrics of one lead\<close>

record metrics =
  totalProgressions :: int
  timeInEachStatus :: "string \<Rightarrow> int option"
  currentStatusDuration :: "int option"

text \<open>
  The \<open>for\<close> loop of \<open>getProgressionMetrics\<close> over the index \<open>i\<close>: \<open>next\<close> is the entry at
  \<open>i + 1\<close>, which is \<open>undefined\<close> past the end of the array.
\<close>

function metricsLoop :: "history_entry list \<Rightarrow> int \<Rightarrow> nat \<Rightarrow> metrics \<Rightarrow> metrics" where
  "metricsLoop h now i m =
     (if i < length h
      then (if Suc i < length h
            then metricsLoop h now (Suc i)
                   (m\<lparr>timeInEachStatus :=
                        (timeInEachStatus m)(h_status (h ! i) \<mapsto> h_timestamp (h ! Suc i) - h_timestamp (h ! i))\<rparr>)
            else metricsLoop h now (Suc i)
                   (m\<lparr>currentStatusDuration := Some (now - h_timestamp (h ! i))\<rparr>))
      else m)"
  by pat_completeness auto
termination
  by (relation "measure (\<lambda>(h, now, i, m). length h - i)") auto

declare metricsLoop.simps [simp del]

definition getProgressionMetrics :: "int \<Rightarrow> lead \<Rightarrow> metrics option" where
  "getProgressionMetrics now d =
     (if statusHistory d = [] then None
      else Some (metricsLoop (statusHistory d) now 0
                   \<lparr>totalProgressions = int (length (statusHistory d)) - 1,
                    timeInEachStatus = Map.empty,
                    currentStatusDuration = None\<rparr>))"

subsection \<open>Analytics over all leads\<close>

record funnel =
  total :: nat
  connected :: nat
  "qualified" :: nat
  converted :: nat

definition emptyFunnel :: funnel where
  "emptyFunnel = \<lparr>total = 0, connected = 0, qualified = 0, converted = 0\<rparr>"

definition funnelStep :: "lead \<Rightarrow> funnel \<Rightarrow> funnel" where
  \<comment> \<open>the four \<open>$sum\<close> accumulators of the \<open>$group\<close> stage, on one document\<close>
  "funnelStep d f =
     \<lparr>total = total f + 1,
      connected = connected f
        + (if status d = ''connected'' \<or> status d = ''qualified'' \<or> status d = ''converted'' then 1 else 0),
      qualified = qualified f
        + (if status d = ''qualified'' \<or> status d = ''converted'' then 1 else 0),
      converted = converted f + (if status d = ''converted'' then 1 else 0)\<rparr>"

definition conversionFunnel :: "lead list \<Rightarrow> funnel list" where
  \<comment> \<open>the facet \<open>conversionFunnel\<close>: a \<open>$group\<close> with \<open>_id: null\<close> over no document
      gives no group\<close>
  "conversionFunnel leads = (if leads = [] then [] else [fold funnelStep leads emptyFunnel])"

definition ComputeConversionFunnel :: "lead list \<Rightarrow> funnel" where
  \<comment> \<open>\<open>result.conversionFunnel[0] || { total: 0, connected: 0, qualified: 0, converted: 0 }\<close>\<close>
  "ComputeConversionFunnel leads =
     (case conversionFunnel leads of [] \<Rightarrow> emptyFunnel | f # _ \<Rightarrow> f)"

record progression_times =
  avgTimeToConnect :: "rat option"
  avgTimeToQualify :: "rat option"
  avgTimeToConvert :: "rat option"

definition hasProgressed :: "lead \<Rightarrow> bool" where
  \<comment> \<open>the \<open>$match\<close> stage: one of the three stage timestamps exists\<close>
  "hasProgressed d =
     (connectedAt (statusTimestamps d) \<noteq> None
      \<or> qualifiedAt (statusTimestamps d) \<noteq> None
      \<or> convertedAt (statusTimestamps d) \<noteq> None)"

definition timeTo :: "(status_timestamps \<Rightarrow> int option) \<Rightarrow> lead \<Rightarrow> int option" where
  \<comment> \<open>the \<open>$cond\<close> fed to \<open>$avg\<close>: \<open>$subtract\<close> of the stage timestamp and \<open>createdAt\<close>, in
      milliseconds; on a missing timestamp \<open>$subtract\<close> gives \<open>null\<close>\<close>
  "timeTo stage d = (case stage (statusTimestamps d) of None \<Rightarrow> None | Some t \<Rightarrow> Some (t - createdAt d))"

definition avg :: "int option list \<Rightarrow> rat option" where
  \<comment> \<open>the accumulator \<open>$avg\<close>: \<open>null\<close> values are ignored, and the result is \<open>null\<close> when
      nothing is left. The quotient is kept exact; MongoDB returns the double nearest to it.\<close>
  "avg vs =
     (let nums = concat (map (\<lambda>v. case v of None \<Rightarrow> [] | Some x \<Rightarrow> [x]) vs)
      in if nums = [] then None else Some (of_int (sum_list nums) / of_nat (length nums)))"

definition averageProgressionTimes :: "lead list \<Rightarrow> progression_times list" where
  \<comment> \<open>the facet \<open>averageProgressionTimes\<close>: \<open>$match\<close>, then one \<open>$group\<close>\<close>
  "averageProgressionTimes leads =
     (let matched = filter hasProgressed leads
      in if matched = [] then []
         else [\<lparr>avgTimeToConnect = avg (map (timeTo connectedAt) matched),
                avgTimeToQualify = avg (map (timeTo qualifiedAt) matched),
                avgTimeToConvert = avg (map (timeTo convertedAt) matched)\<rparr>])"

definition ComputeAverageProgressionTimes :: "lead list \<Rightarrow> progression_times" where
  \<comment> \<open>\<open>result.averageProgressionTimes[0] || {}\<close>\<close>
  "ComputeAverageProgressionTimes leads =
     (case averageProgressionTimes leads of
        [] \<Rightarrow> \<lparr>avgTimeToConnect = None, avgTimeToQualify = None, avgTimeToConvert = None\<rparr>
      | t # _ \<Rightarrow> t)"

subsection \<open>Bulk status update\<close>

record bulk_success =
  s_id :: string
  s_name :: "string option"
  s_email :: string
  oldStatus :: string
  newStatus :: string

record bulk_failure =
  f_id :: string
  f_name :: "string option"
  f_email :: string
  f_error :: error

record bulk_summary =
  requested :: nat
  found :: nat
  n_successful :: nat
  n_failed :: nat

record bulk_data =
  successful :: "bulk_success list"
  failed :: "bulk_failure list"
  summary :: bulk_summary

datatype http_error = BadRequest string | NotFound string | ServerError string

definition hydrate :: "lead \<Rightarrow> lead" where
  \<comment> \<open>a document loaded from the store: not new, every path loaded, nothing modified, no
      transient property\<close>
  "hydrate d = d\<lparr>isNew := False, initPaths := allPaths, modifiedPaths := [], statusNotes := None\<rparr>"

definition findByIds :: "lead list \<Rightarrow> string list \<Rightarrow> lead list" where
  \<comment> \<open>\<open>Lead.find({ _id: { $in: leadIds } })\<close>\<close>
  "findByIds store leadIds = map hydrate (filter (\<lambda>d. leadId d \<in> set leadIds) store)"

definition successRecord :: "string \<Rightarrow> lead \<Rightarrow> bulk_success" where
  \<comment> \<open>the object pushed to \<open>updateResults\<close>; \<open>lead\<close> is the document after \<open>updateStatus\<close>\<close>
  "successRecord st d =
     \<lparr>s_id = leadId d, s_name = name d, s_email = email d, oldStatus = status d, newStatus = st\<rparr>"

definition failureRecord :: "error \<Rightarrow> lead \<Rightarrow> bulk_failure" where
  \<comment> \<open>the object pushed to \<open>errors\<close>\<close>
  "failureRecord e d = \<lparr>f_id = leadId d, f_name = name d, f_email = email d, f_error = e\<rparr>"

text \<open>
  The loop \<open>for (const lead of leads)\<close> with its \<open>try\<close>/\<open>catch\<close>; \<open>clock i\<close> is the time
  read by the save of the \<open>i\<close>-th lead. The success record reads \<open>lead.status\<close> after
  \<open>updateStatus\<close> has returned.
\<close>

fun updateEach :: "(lead \<Rightarrow> string option) \<Rightarrow> (nat \<Rightarrow> int) \<Rightarrow> string \<Rightarrow> string option \<Rightarrow> nat \<Rightarrow> lead list
    \<Rightarrow> bulk_success list \<Rightarrow> bulk_failure list \<Rightarrow> bulk_success list \<times> bulk_failure list" where
  "updateEach dbWrite clock st nt i [] updateResults errors = (updateResults, errors)"
| "updateEach dbWrite clock st nt i (d # rest) updateResults errors =
     (case updateStatus dbWrite (clock i) st nt d of
        Inr d' \<Rightarrow>
          updateEach dbWrite clock st nt (Suc i) rest (updateResults @ [successRecord st d']) errors
      | Inl (e, d') \<Rightarrow>
          updateEach dbWrite clock st nt (Suc i) rest updateResults (errors @ [failureRecord e d']))"

text \<open>
  The handler \<open>bulkUpdateLeadStatus\<close>: the three checks of the request, the lookup, the
  loop, and the answer with its summary. The lookup casts every identifier; on one that
  the driver does not cast, \<open>Lead.find\<close> throws, the outer \<open>catch\<close> takes over and the
  whole request is answered with status 500.
\<close>

definition bulkUpdateLeadStatus :: "(string \<Rightarrow> bool) \<Rightarrow> (lead \<Rightarrow> string option) \<Rightarrow> (nat \<Rightarrow> int) \<Rightarrow> lead list
    \<Rightarrow> string list \<Rightarrow> string \<Rightarrow> string option \<Rightarrow> http_error + bulk_data" where
  "bulkUpdateLeadStatus castable dbWrite clock store leadIds st nt =
     (if leadIds = [] then Inl (BadRequest ''leadIds array is required and must not be empty'')
      else if st = [] \<or> st \<notin> set validStatuses
      then Inl (BadRequest ''Invalid status. Must be one of: new, connected, qualified, converted'')
      else if length leadIds > 100 then Inl (BadRequest ''Cannot update more than 100 leads at once'')
      else if \<not> list_all castable leadIds
      then Inl (ServerError ''Internal server error while updating lead statuses'')
      else (let leads = findByIds store leadIds
            in if leads = [] then Inl (NotFound ''No leads found with the provided IDs'')
               else (case updateEach dbWrite clock st nt 0 leads [] [] of
                       (updateResults, errors) \<Rightarrow>
                         Inr \<lparr>successful = updateResults,
                              failed = errors,
                              summary = \<lparr>requested = length leadIds,
                                         found = length leads,
                                         n_successful = length updateResults,
                                         n_failed = length errors\<rparr>\<rparr>)))"

subsection \<open>JavaScript numbers\<close>

text \<open>
  A finite double is a rational number. An operation on doubles returns the double
  nearest to the exact result, the one with the even significand on a tie (IEEE 754
  binary64, round to nearest even). \<open>roundDouble\<close> is this rounding on the normal range,
  where a double has a significand of 53 bits: the numbers met here are counts,
  quotients of counts and their percentages, far from overflow and from the subnormal
  numbers.
\<close>

definition pow2 :: "int \<Rightarrow> rat" where
  "pow2 k = (if 0 \<le> k then 2 ^ nat k else 1 / 2 ^ nat (- k))"

function bitLength :: "int \<Rightarrow> int" where
  "bitLength n = (if n \<le> 0 then 0 else bitLength (n div 2) + 1)"
  by pat_completeness auto
termination
  by (relation "measure nat") auto

declare bitLength.simps [simp del]

definition binade :: "rat \<Rightarrow> int" where
  \<comment> \<open>the exponent \<open>e\<close> with \<open>2^e \<le> x < 2^(e+1)\<close>, for a positive \<open>x\<close>, from the bit lengths of
      the numerator and the denominator\<close>
  "binade x =
     (case quotient_of x of (p, q) \<Rightarrow>
        (let k = bitLength p - bitLength q
         in if pow2 k \<le> x then k else k - 1))"

definition roundHalfEven :: "rat \<Rightarrow> int" where
  "roundHalfEven m =
     (let f = \<lfloor>m\<rfloor>; r = m - of_int f
      in if r < 1 / 2 then f else if 1 / 2 < r then f + 1 else if even f then f else f + 1)"

definition roundDouble :: "rat \<Rightarrow> rat" where
  "roundDouble x =
     (if x = 0 then 0
      else (let ulp = pow2 (binade \<bar>x\<bar> - 52)
            in sgn x * of_int (roundHalfEven (\<bar>x\<bar> / ulp)) * ulp))"

definition jsNumber :: "nat \<Rightarrow> rat" where
  \<comment> \<open>a count of the aggregation as a JavaScript number\<close>
  "jsNumber n = roundDouble (of_nat n)"

definition jsDivide :: "rat \<Rightarrow> rat \<Rightarrow> rat" where
  \<comment> \<open>\<open>x / y\<close> for a divisor that is not zero\<close>
  "jsDivide x y = roundDouble (x / y)"

definition jsTimes :: "rat \<Rightarrow> rat \<Rightarrow> rat" where
  "jsTimes x y = roundDouble (x * y)"

text \<open>
  \<open>Number.prototype.toFixed\<close> with the argument 2. Below \<open>10^21\<close> the result spells the
  integer \<open>n\<close> for which \<open>n / 100\<close> is nearest to the exact value of the double, the
  larger one on a tie, with a point before its last two digits, and a minus sign for a
  negative double. From \<open>10^21\<close> on the result is the string \<open>ToString\<close> gives; the model
  keeps the double it spells.
\<close>

definition digitChar :: "int \<Rightarrow> char" where
  "digitChar n = char_of (48 + n)"

function showNat :: "int \<Rightarrow> string" where
  \<comment> \<open>the decimal digits of an integer that is not negative\<close>
  "showNat n = (if n < 10 then [digitChar n] else showNat (n div 10) @ [digitChar (n mod 10)])"
  by pat_completeness auto
termination
  by (relation "measure nat") auto

declare showNat.simps [simp del]

datatype rate = Num int | Fixed string | Exponent rat

definition hundredths :: "rat \<Rightarrow> int" where
  "hundredths x = \<lfloor>\<bar>x\<bar> * 100 + 1 / 2\<rfloor>"

definition fixedString :: "bool \<Rightarrow> int \<Rightarrow> string" where
  "fixedString negative n =
     (if negative then ''-'' else [])
     @ showNat (n div 100) @ ''.'' @ [digitChar (n div 10 mod 10), digitChar (n mod 10)]"

definition toFixed2 :: "rat \<Rightarrow> rate" where
  "toFixed2 x = (if 10 ^ 21 \<le> \<bar>x\<bar> then Exponent x else Fixed (fixedString (x < 0) (hundredths x)))"

subsection \<open>Conversion rates\<close>

record conversion_rates =
  newToConnected :: rate
  connectedToQualified :: rate
  qualifiedToConverted :: rate
  overallConversion :: rate

definition percentage :: "nat \<Rightarrow> nat \<Rightarrow> rat" where
  \<comment> \<open>\<open>a / b * 100\<close> on the counts \<open>a\<close> and \<open>b\<close>\<close>
  "percentage a b = jsTimes (jsDivide (jsNumber a) (jsNumber b)) 100"

definition conversionRates :: "funnel \<Rightarrow> conversion_rates" where
  \<comment> \<open>the object \<open>conversionRates\<close> of \<open>getLeadProgressionAnalytics\<close>\<close>
  "conversionRates f =
     \<lparr>newToConnected =
        (if 0 < jsNumber (total f) then toFixed2 (percentage (connected f) (total f)) else Num 0),
      connectedToQualified =
        (if 0 < jsNumber (connected f) then toFixed2 (percentage (qualified f) (connected f)) else Num 0),
      qualifiedToConverted =
        (if 0 < jsNumber (qualified f) then toFixed2 (percentage (converted f) (qualified f)) else Num 0),
      overallConversion =
        (if 0 < jsNumber (total f) then toFixed2 (percentage (converted f) (total f)) else Num 0)\<rparr>"

subsection \<open>Counting status changes\<close>

text \<open>
  The number of requests in a run that ask for a status other than the one the lead
  holds when the request arrives; \<open>cur\<close> is the status held before the first request.
\<close>

fun statusChanges :: "string \<Rightarrow> string list \<Rightarrow> nat" where
  "statusChanges cur [] = 0"
| "statusChanges cur (s # ss) = (if s = cur then 0 else 1) + statusChanges s ss"

subsection \<open>Sample data\<close>

definition acceptAll :: "lead \<Rightarrow> string option" where
  \<comment> \<open>a database that accepts every write\<close>
  "acceptAll d = None"

definition hex24 :: "string \<Rightarrow> bool" where
  \<comment> \<open>a driver that casts the strings of 24 hexadecimal digits\<close>
  "hex24 s = (length s = 24 \<and> list_all (\<lambda>c. isDigit c \<or> c \<in> set ''abcdefABCDEF'') s)"

definition id1 :: string where "id1 = ''64b7f0c2a1d3e4f5a6b7c8d1''"
definition id2 :: string where "id2 = ''64b7f0c2a1d3e4f5a6b7c8d2''"
definition id3 :: string where "id3 = ''64b7f0c2a1d3e4f5a6b7c8d3''"
definition id9 :: string where "id9 = ''64b7f0c2a1d3e4f5a6b7c8d9''"

definition janeInput :: lead_input where
  "janeInput =
     \<lparr>in_name = None, in_firstName = Some ''jane'', in_lastName = Some ''doe'',
      in_email = ''JANE@X.COM'', in_phone = ''555-123-4567'', in_company = None,
      in_source = None, in_notes = None\<rparr>"

definition jane :: lead where
  \<comment> \<open>the lead constructed from \<open>janeInput\<close> at time 1000\<close>
  "jane =
     \<lparr>leadId = id1, name = Some ''Jane Doe'', firstName = Some ''Jane'', lastName = Some ''Doe'',
      company = None, email = ''jane@x.com'', phone = ''5551234567'', status = ''new'',
      statusHistory = [\<lparr>h_status = ''new'', h_timestamp = 1000, h_notes = None\<rparr>],
      statusTimestamps = noTimestamps, source = ''website'', notes = None, createdAt = 1000,
      isNew = False, initPaths = [], modifiedPaths = [], statusNotes = None\<rparr>"

definition longInput :: lead_input where
  \<comment> \<open>two names of 25 letters: the derived name has 51 characters\<close>
  "longInput =
     janeInput\<lparr>in_firstName := Some ''abcdefghijklmnopqrstuvwxy'',
               in_lastName := Some ''abcdefghijklmnopqrstuvwxy''\<rparr>"

definition returningLead :: lead where
  \<comment> \<open>a lead that went back to \<open>new\<close> once\<close>
  "returningLead =
     jane\<lparr>status := ''qualified'',
          statusHistory :=
            [\<lparr>h_status = ''new'', h_timestamp = 1000, h_notes = None\<rparr>,
             \<lparr>h_status = ''connected'', h_timestamp = 1500, h_notes = None\<rparr>,
             \<lparr>h_status = ''new'', h_timestamp = 1700, h_notes = None\<rparr>,
             \<lparr>h_status = ''qualified'', h_timestamp = 2700, h_notes = None\<rparr>],
          statusTimestamps := \<lparr>connectedAt = Some 1500, qualifiedAt = Some 2700, convertedAt = None\<rparr>\<rparr>"

definition stamped :: "string \<Rightarrow> int option \<Rightarrow> int option \<Rightarrow> lead" where
  \<comment> \<open>a stored lead created at time 1000 with the given \<open>connectedAt\<close> and \<open>qualifiedAt\<close>\<close>
  "stamped i c q =
     jane\<lparr>leadId := i,
          statusTimestamps := \<lparr>connectedAt = c, qualifiedAt = q, convertedAt = None\<rparr>\<rparr>"

definition fiveLeads :: "lead list" where
  "fiveLeads =
     [stamped ''id1'' (Some 3000) None, stamped ''id2'' None None, stamped ''id3'' (Some 5000) (Some 9000),
      stamped ''id4'' None None, stamped ''id5'' None (Some 2000)]"

definition threeLeads :: "lead list" where
  "threeLeads = [jane, jane\<lparr>leadId := id2, email := ''joe@x.com''\<rparr>,
                 jane\<lparr>leadId := id3, email := ''ann@x.com'', status := ''connected''\<rparr>]"

definition rejectId2 :: "lead \<Rightarrow> string option" where
  \<comment> \<open>a database that rejects the write of the lead \<open>id2\<close>\<close>
  "rejectId2 d = (if leadId d = id2 then Some ''write failed'' else None)"

definition atNoon :: "nat \<Rightarrow> int" where
  \<comment> \<open>a clock that stands still\<close>
  "atNoon i = 43200000"

definition docsFunnel :: funnel where
  \<comment> \<open>the funnel of the example answer in the repository's notes\<close>
  "docsFunnel = \<lparr>total = 85, connected = 40, qualified = 17, converted = 5\<rparr>"

subsection \<open>The specification's wording of the average times\<close>

text \<open>
  The mean of \<open>stageTimestamp - createdAt\<close> over the leads on which the stage timestamp
  is set, and no value when there is no such lead.
\<close>

definition specMeanTimeTo :: "(status_timestamps \<Rightarrow> int option) \<Rightarrow> lead list \<Rightarrow> rat option" where
  "specMeanTimeTo stage leads =
     (let reached = filter (\<lambda>d. stage (statusTimestamps d) \<noteq> None) leads
      in if reached = [] then None
         else Some (of_int (sum_list (map (\<lambda>d. the (stage (statusTimestamps d)) - createdAt d) reached))
                    / of_nat (length reached)))"

subsection \<open>The specification's wording of the conversion rates\<close>

text \<open>
  The percentage of \<open>a\<close> in \<open>b\<close> to 2 decimal places: a number of hundredths \<open>n\<close> such that
  no multiple of \<open>1/100\<close> is nearer to the exact percentage \<open>100 * a / b\<close> than \<open>n / 100\<close>.
\<close>

definition specRoundedPercentage :: "nat \<Rightarrow> nat \<Rightarrow> int \<Rightarrow> bool" where
  "specRoundedPercentage a b n =
     (0 \<le> n \<and> \<bar>of_int n / 100 - 100 * of_nat a / of_nat b\<bar> \<le> (1 / 200 :: rat))"

section \<open>The middleware, step by step\<close>

lemma markModified_keeps:
  "status (markModified p d) = status d"
  "statusHistory (markModified p d) = statusHistory d"
  "statusTimestamps (markModified p d) = statusTimestamps d"
  "isNew (markModified p d) = isNew d"
  "statusNotes (markModified p d) = statusNotes d"
  "leadId (markModified p d) = leadId d"
  "email (markModified p d) = email d"
  "phone (markModified p d) = phone d"
  "name (markModified p d) = name d"
  "firstName (markModified p d) = firstName d"
  "lastName (markModified p d) = lastName d"
  "company (markModified p d) = company d"
  "initPaths (markModified p d) = removeAll p (initPaths d)"
  "isModified q (markModified p d) = (q = p \<or> isModified q d)"
  "modifiedPaths (markModified p d) \<noteq> []"
  by (auto simp: markModified_def isModified_def List.insert_def)

lemma setPhone_keeps:
  "status (setPhone v d) = status d"
  "statusHistory (setPhone v d) = statusHistory d"
  "statusTimestamps (setPhone v d) = statusTimestamps d"
  "isNew (setPhone v d) = isNew d"
  "statusNotes (setPhone v d) = statusNotes d"
  "leadId (setPhone v d) = leadId d"
  "email (setPhone v d) = email d"
  "name (setPhone v d) = name d"
  "firstName (setPhone v d) = firstName d"
  "lastName (setPhone v d) = lastName d"
  "company (setPhone v d) = company d"
  "isModified ''status'' (setPhone v d) = isModified ''status'' d"
  "initPaths d = [] \<Longrightarrow> initPaths (setPhone v d) = []"
  by (simp_all add: setPhone_def markModified_def isModified_def)

lemma setName_keeps:
  "status (setName v d) = status d"
  "statusHistory (setName v d) = statusHistory d"
  "statusTimestamps (setName v d) = statusTimestamps d"
  "isNew (setName v d) = isNew d"
  "statusNotes (setName v d) = statusNotes d"
  "leadId (setName v d) = leadId d"
  "email (setName v d) = email d"
  "phone (setName v d) = phone d"
  "firstName (setName v d) = firstName d"
  "lastName (setName v d) = lastName d"
  "company (setName v d) = company d"
  "isModified ''status'' (setName v d) = isModified ''status'' d"
  "initPaths d = [] \<Longrightarrow> initPaths (setName v d) = []"
  by (simp_all add: setName_def markModified_def isModified_def)

lemma setFirstName_keeps:
  "status (setFirstName v d) = status d"
  "statusHistory (setFirstName v d) = statusHistory d"
  "statusTimestamps (setFirstName v d) = statusTimestamps d"
  "isNew (setFirstName v d) = isNew d"
  "statusNotes (setFirstName v d) = statusNotes d"
  "leadId (setFirstName v d) = leadId d"
  "email (setFirstName v d) = email d"
  "phone (setFirstName v d) = phone d"
  "lastName (setFirstName v d) = lastName d"
  "company (setFirstName v d) = company d"
  "isModified ''status'' (setFirstName v d) = isModified ''status'' d"
  "initPaths d = [] \<Longrightarrow> initPaths (setFirstName v d) = []"
  by (simp_all add: setFirstName_def markModified_def isModified_def)

lemma setLastName_keeps:
  "status (setLastName v d) = status d"
  "statusHistory (setLastName v d) = statusHistory d"
  "statusTimestamps (setLastName v d) = statusTimestamps d"
  "isNew (setLastName v d) = isNew d"
  "statusNotes (setLastName v d) = statusNotes d"
  "leadId (setLastName v d) = leadId d"
  "email (setLastName v d) = email d"
  "phone (setLastName v d) = phone d"
  "company (setLastName v d) = company d"
  "isModified ''status'' (setLastName v d) = isModified ''status'' d"
  "initPaths d = [] \<Longrightarrow> initPaths (setLastName v d) = []"
  by (simp_all add: setLastName_def markModified_def isModified_def)

lemma setCompany_keeps:
  "status (setCompany v d) = status d"
  "statusHistory (setCompany v d) = statusHistory d"
  "statusTimestamps (setCompany v d) = statusTimestamps d"
  "isNew (setCompany v d) = isNew d"
  "statusNotes (setCompany v d) = statusNotes d"
  "leadId (setCompany v d) = leadId d"
  "email (setCompany v d) = email d"
  "phone (setCompany v d) = phone d"
  "isModified ''status'' (setCompany v d) = isModified ''status'' d"
  "initPaths d = [] \<Longrightarrow> initPaths (setCompany v d) = []"
  by (simp_all add: setCompany_def markModified_def isModified_def)

lemmas setters_keep =
  setPhone_keeps setName_keeps setFirstName_keeps setLastName_keeps setCompany_keeps

lemma normalizeFields_keeps:
  "status (normalizeFields d) = status d"
  "statusHistory (normalizeFields d) = statusHistory d"
  "statusTimestamps (normalizeFields d) = statusTimestamps d"
  "isNew (normalizeFields d) = isNew d"
  "statusNotes (normalizeFields d) = statusNotes d"
  "leadId (normalizeFields d) = leadId d"
  "email (normalizeFields d) = email d"
  "isModified ''status'' (normalizeFields d) = isModified ''status'' d"
  by (simp_all add: normalizeFields_def Let_def setters_keep)

lemma normalizeFields_initPaths:
  "initPaths d = [] \<Longrightarrow> initPaths (normalizeFields d) = []"
  by (simp add: normalizeFields_def Let_def setters_keep)

lemma normalizeFields_phone:
  "phone (normalizeFields d) =
     (if phone d \<noteq> [] then phone (setPhone (formatPhoneNumber (phone d)) d) else phone d)"
  by (simp add: normalizeFields_def Let_def setters_keep)

lemma pushHistory_keeps:
  "status (pushHistory now d) = status d"
  "statusTimestamps (pushHistory now d) = statusTimestamps d"
  "isNew (pushHistory now d) = isNew d"
  "leadId (pushHistory now d) = leadId d"
  "email (pushHistory now d) = email d"
  "phone (pushHistory now d) = phone d"
  "initPaths d = [] \<Longrightarrow> initPaths (pushHistory now d) = []"
  by (simp_all add: pushHistory_def markModified_keeps)

lemma pushHistory_length:
  "length (statusHistory (pushHistory now d)) = (if isNew d then 1 else Suc (length (statusHistory d)))"
  by (simp add: pushHistory_def markModified_keeps)

lemma stampStatus_keeps:
  "stage = connectedAt \<or> stage = qualifiedAt \<or> stage = convertedAt \<Longrightarrow>
   stage ts = Some t \<Longrightarrow> stage (stampStatus now s ts) = Some t"
  by (elim disjE; simp add: stampStatus_def)

lemma preSave_keeps:
  "status (preSave now d) = status d"
  "leadId (preSave now d) = leadId d"
  "email (preSave now d) = email d"
  "isNew (preSave now d) = isNew d"
  "phone (preSave now d) = phone (normalizeFields d)"
  by (simp_all add: preSave_def Let_def normalizeFields_keeps pushHistory_keeps markModified_keeps)

lemma preSave_initPaths:
  "initPaths d = [] \<Longrightarrow> initPaths (preSave now d) = []"
  by (simp add: preSave_def Let_def normalizeFields_keeps normalizeFields_initPaths
      pushHistory_keeps markModified_keeps)

lemma preSave_history_length:
  "length (statusHistory (preSave now d)) =
     (if isNew d then 1
      else if isModified ''status'' d then Suc (length (statusHistory d))
      else length (statusHistory d))"
  by (simp add: preSave_def Let_def normalizeFields_keeps pushHistory_keeps pushHistory_length
      markModified_keeps)

lemma preSave_timestamps:
  "statusTimestamps (preSave now d) =
     (if isModified ''status'' d \<or> isNew d
      then stampStatus now (status d) (statusTimestamps d) else statusTimestamps d)"
  by (simp add: preSave_def Let_def normalizeFields_keeps pushHistory_keeps markModified_keeps)

lemma preSave_stamps:
  assumes "stage = connectedAt \<or> stage = qualifiedAt \<or> stage = convertedAt"
    and "stage (statusTimestamps d) = Some t"
  shows "stage (statusTimestamps (preSave now d)) = Some t"
proof (cases "isModified ''status'' d \<or> isNew d")
  case True
  have "stage (stampStatus now (status d) (statusTimestamps d)) = Some t"
    using assms by (rule stampStatus_keeps)
  with True show ?thesis
    by (simp add: preSave_timestamps)
next
  case False
  with assms(2) show ?thesis
    by (simp add: preSave_timestamps)
qed

lemma preSave_new:
  assumes "isNew d"
  shows "statusHistory (preSave now d) = [\<lparr>h_status = status d, h_timestamp = now, h_notes = None\<rparr>]"
    and "statusTimestamps (preSave now d) = stampStatus now (status d) (statusTimestamps d)"
  using assms
  by (simp_all add: preSave_def Let_def normalizeFields_keeps pushHistory_keeps pushHistory_def
      markModified_keeps)

text \<open>The four ways a save can end.\<close>

lemma save_cases:
  obtains (invalid) "validateLead d \<noteq> []"
      "save w now d = Inl (ValidationError (validateLead d), d)"
  | (unchanged) "validateLead d = []" "\<not> isNew d" "modifiedPaths (preSave now d) = []"
      "save w now d = Inr (preSave now d)"
  | (rejected) msg where "validateLead d = []" "isNew d \<or> modifiedPaths (preSave now d) \<noteq> []"
      "w (preSave now d) = Some msg"
      "save w now d = Inl (StoreError msg, preSave now d)"
  | (saved) "validateLead d = []" "isNew d \<or> modifiedPaths (preSave now d) \<noteq> []"
      "w (preSave now d) = None"
      "save w now d =
         Inr ((preSave now d)\<lparr>createdAt := (if isNew d then now else createdAt (preSave now d)),
                              isNew := False, modifiedPaths := []\<rparr>)"
  by (cases "validateLead d = []"; cases "\<not> isNew d \<and> modifiedPaths (preSave now d) = []";
      cases "w (preSave now d)")
     (auto simp: save_def Let_def preSave_keeps)

lemma save_stamps:
  assumes "stage = connectedAt \<or> stage = qualifiedAt \<or> stage = convertedAt"
    and "stage (statusTimestamps d) = Some t"
  shows "stage (statusTimestamps (docAfter (save w now d))) = Some t"
proof (rule save_cases[of d w now])
  assume "save w now d = Inl (ValidationError (validateLead d), d)"
  then show ?thesis using assms(2) by (simp add: docAfter_def)
next
  assume "save w now d = Inr (preSave now d)"
  then show ?thesis using preSave_stamps[OF assms, of now] by (simp add: docAfter_def)
next
  fix msg assume "save w now d = Inl (StoreError msg, preSave now d)"
  then show ?thesis using preSave_stamps[OF assms, of now] by (simp add: docAfter_def)
next
  assume "save w now d =
         Inr ((preSave now d)\<lparr>createdAt := (if isNew d then now else createdAt (preSave now d)),
                              isNew := False, modifiedPaths := []\<rparr>)"
  then show ?thesis using preSave_stamps[OF assms, of now] by (simp add: docAfter_def)
qed

lemma save_Inr:
  assumes "save w now d = Inr d'"
  shows "status d' = status d" and "\<not> isNew d'" and "modifiedPaths d' = []"
    and "leadId d' = leadId d" and "email d' = email d"
    and "phone d' = phone (normalizeFields d)"
    and "initPaths d = [] \<Longrightarrow> initPaths d' = []"
    and "statusHistory d' = statusHistory (preSave now d)"
    and "statusTimestamps d' = statusTimestamps (preSave now d)"
    and "validateLead d = []"
proof -
  have d': "d' = preSave now d \<and> \<not> isNew d \<and> modifiedPaths (preSave now d) = []
      \<or> d' = (preSave now d)\<lparr>createdAt := (if isNew d then now else createdAt (preSave now d)),
                              isNew := False, modifiedPaths := []\<rparr>"
    using assms by (rule_tac save_cases[of d w now]) simp_all
  show "status d' = status d" using d' by (auto simp: preSave_keeps)
  show "\<not> isNew d'" using d' by (auto simp: preSave_keeps)
  show "modifiedPaths d' = []" using d' by auto
  show "leadId d' = leadId d" using d' by (auto simp: preSave_keeps)
  show "email d' = email d" using d' by (auto simp: preSave_keeps)
  show "phone d' = phone (normalizeFields d)" using d' by (auto simp: preSave_keeps)
  show "initPaths d = [] \<Longrightarrow> initPaths d' = []" using d' by (auto simp: preSave_initPaths)
  show "statusHistory d' = statusHistory (preSave now d)" using d' by auto
  show "statusTimestamps d' = statusTimestamps (preSave now d)" using d' by auto
  show "validateLead d = []" using assms by (rule_tac save_cases[of d w now]) simp_all
qed

lemma setStatus_keeps:
  "statusTimestamps (setStatus s d) = statusTimestamps d"
  "statusHistory (setStatus s d) = statusHistory d"
  "isNew (setStatus s d) = isNew d"
  "status (setStatus s d) = s"
  "leadId (setStatus s d) = leadId d"
  "email (setStatus s d) = email d"
  "phone (setStatus s d) = phone d"
  "initPaths d = [] \<Longrightarrow> initPaths (setStatus s d) = []"
  by (simp_all add: setStatus_def markModified_keeps)

lemma setStatus_modified:
  "\<not> isNew d \<Longrightarrow> \<not> isModified ''status'' d \<Longrightarrow>
   isModified ''status'' (setStatus s d) = (s \<noteq> status d)"
  by (auto simp: setStatus_def markModified_keeps)

lemma updateStatus_valid:
  "s \<in> set validStatuses \<Longrightarrow>
   updateStatus w now s n d =
     save w now (if truthy n \<and> statusHistory (setStatus s d) \<noteq> []
                 then (setStatus s d)\<lparr>statusNotes := n\<rparr> else setStatus s d)"
  by (simp add: updateStatus_def Let_def)

lemma updateStatus_stamps:
  assumes "stage = connectedAt \<or> stage = qualifiedAt \<or> stage = convertedAt"
    and "stage (statusTimestamps d) = Some t"
  shows "stage (statusTimestamps (docAfter (updateStatus w now s n d))) = Some t"
proof (cases "s \<in> set validStatuses")
  case False
  then show ?thesis using assms(2) by (simp add: updateStatus_def docAfter_def)
next
  case True
  define d2 where "d2 = (if truthy n \<and> statusHistory (setStatus s d) \<noteq> []
                         then (setStatus s d)\<lparr>statusNotes := n\<rparr> else setStatus s d)"
  have "stage (statusTimestamps d2) = Some t"
    using assms(2) by (simp add: d2_def setStatus_keeps)
  then have "stage (statusTimestamps (docAfter (save w now d2))) = Some t"
    by (rule save_stamps[OF assms(1)])
  moreover have "updateStatus w now s n d = save w now d2"
    unfolding d2_def using True by (rule updateStatus_valid)
  ultimately show ?thesis by simp
qed

text \<open>A successful transition of a stored document.\<close>

lemma updateStatus_Inr:
  assumes "updateStatus w now s n d = Inr d'"
  shows "status d' = s" and "\<not> isNew d'" and "modifiedPaths d' = []" and "s \<in> set validStatuses"
proof -
  show valid: "s \<in> set validStatuses"
    using assms by (auto simp: updateStatus_def split: if_splits)
  define d2 where "d2 = (if truthy n \<and> statusHistory (setStatus s d) \<noteq> []
                         then (setStatus s d)\<lparr>statusNotes := n\<rparr> else setStatus s d)"
  have sv: "save w now d2 = Inr d'"
    using assms unfolding updateStatus_valid[OF valid] d2_def .
  have "status d2 = s"
    by (simp add: d2_def setStatus_keeps)
  with save_Inr(1-3)[OF sv]
  show "status d' = s" and "\<not> isNew d'" and "modifiedPaths d' = []" by simp_all
qed

lemma updateStatus_history_length:
  assumes "updateStatus w now s n d = Inr d'" and "\<not> isNew d" and "\<not> isModified ''status'' d"
  shows "length (statusHistory d') = length (statusHistory d) + (if s = status d then 0 else 1)"
proof -
  have valid: "s \<in> set validStatuses"
    using assms(1) by (rule updateStatus_Inr)
  define d2 where "d2 = (if truthy n \<and> statusHistory (setStatus s d) \<noteq> []
                         then (setStatus s d)\<lparr>statusNotes := n\<rparr> else setStatus s d)"
  have sv: "save w now d2 = Inr d'"
    using assms(1) unfolding updateStatus_valid[OF valid] d2_def .
  have "isModified ''status'' (setStatus s d) = (s \<noteq> status d)"
    using assms(2,3) by (rule setStatus_modified)
  then have "\<not> isNew d2" "isModified ''status'' d2 = (s \<noteq> status d)" "statusHistory d2 = statusHistory d"
    using assms(2) by (auto simp: d2_def setStatus_keeps isModified_def)
  with save_Inr(8)[OF sv] show ?thesis
    by (simp add: preSave_history_length)
qed

section \<open>Construction\<close>

lemma construct_fresh:
  assumes "Construct w newId now inp = Inr d"
  shows "status d = ''new''"
    and "statusHistory d = [\<lparr>h_status = ''new'', h_timestamp = now, h_notes = None\<rparr>]"
    and "statusTimestamps d = noTimestamps"
proof -
  define d0 where "d0 = newLead newId inp"
  have d0: "isNew d0" "status d0 = ''new''" "statusTimestamps d0 = noTimestamps"
    by (simp_all add: d0_def newLead_def)
  have sv: "save w now d0 = Inr d"
    using assms by (simp add: Construct_def d0_def)
  have stamp: "stampStatus now ''new'' noTimestamps = noTimestamps"
    by (simp add: stampStatus_def)
  show "status d = ''new''"
    using d0 save_Inr(1)[OF sv] by simp
  show "statusHistory d = [\<lparr>h_status = ''new'', h_timestamp = now, h_notes = None\<rparr>]"
    using d0 save_Inr(8)[OF sv] by (simp add: preSave_new)
  show "statusTimestamps d = noTimestamps"
    using d0 stamp save_Inr(9)[OF sv] by (simp add: preSave_new)
qed

text \<open>
  C3. Every lead that construction returns has the status \<open>new\<close>, a history of exactly
  one entry, whose status is \<open>new\<close> and whose timestamp is the time of the save, and no
  stage timestamp.
\<close>

theorem construct_starts_new:
  assumes "Construct w newId now inp = Inr d"
  shows "status d = ''new''
    \<and> length (statusHistory d) = 1
    \<and> statusHistory d = [\<lparr>h_status = ''new'', h_timestamp = now, h_notes = None\<rparr>]
    \<and> statusTimestamps d = noTimestamps"
  using construct_fresh[OF assms] by simp

theorem construct_starts_new_witness:
  "Construct acceptAll id1 1000 janeInput = Inr jane
   \<and> status jane = ''new''
   \<and> statusHistory jane = [\<lparr>h_status = ''new'', h_timestamp = 1000, h_notes = None\<rparr>]
   \<and> statusTimestamps jane = noTimestamps"
proof -
  have h: "Construct acceptAll id1 1000 janeInput = Inr jane"
    by code_simp
  from construct_starts_new[OF h] h show ?thesis by simp
qed

section \<open>Stage timestamps\<close>

text \<open>
  C2. A stage timestamp (\<open>connectedAt\<close>, \<open>qualifiedAt\<close> or \<open>convertedAt\<close>) that is set
  stays as it is: through one call of \<open>updateStatus\<close>, whatever status it asks for and
  whether it succeeds or is rejected, through every run of transitions, and through
  every save of the document.
\<close>

theorem stage_timestamp_set_once:
  assumes "stage = connectedAt \<or> stage = qualifiedAt \<or> stage = convertedAt"
    and "stage (statusTimestamps d) = Some t"
  shows "stage (statusTimestamps (docAfter (updateStatus w now s n d))) = Some t
    \<and> stage (statusTimestamps (docAfter (applyTransitions w ts d))) = Some t
    \<and> stage (statusTimestamps (docAfter (save w now d))) = Some t"
proof (intro conjI)
  show "stage (statusTimestamps (docAfter (save w now d))) = Some t"
    using assms by (rule save_stamps)
  show "stage (statusTimestamps (docAfter (updateStatus w now s n d))) = Some t"
    using assms by (rule updateStatus_stamps)
  show "stage (statusTimestamps (docAfter (applyTransitions w ts d))) = Some t"
    using assms(2)
  proof (induction ts arbitrary: d)
    case Nil
    then show ?case by (simp add: docAfter_def)
  next
    case (Cons x ts)
    obtain now' s' n' where x: "x = (now', s', n')"
      by (cases x)
    have step: "stage (statusTimestamps (docAfter (updateStatus w now' s' n' d))) = Some t"
      using assms(1) Cons.prems by (rule updateStatus_stamps)
    show ?case
    proof (cases "updateStatus w now' s' n' d")
      case (Inl a)
      with step x show ?thesis by (simp add: docAfter_def)
    next
      case (Inr d')
      with step have "stage (statusTimestamps d') = Some t"
        by (simp add: docAfter_def)
      then have "stage (statusTimestamps (docAfter (applyTransitions w ts d'))) = Some t"
        by (rule Cons.IH)
      with x Inr show ?thesis by simp
    qed
  qed
qed

theorem stage_timestamp_set_once_witness:
  "qualifiedAt (statusTimestamps (docAfter (applyTransitions acceptAll
       [(2000, ''connected'', None), (3000, ''qualified'', None)] jane))) = Some 3000
   \<and> qualifiedAt (statusTimestamps (docAfter (applyTransitions acceptAll
       [(4000, ''connected'', None), (5000, ''qualified'', None)]
       (docAfter (applyTransitions acceptAll
          [(2000, ''connected'', None), (3000, ''qualified'', None)] jane))))) = Some 3000"
proof -
  have h: "qualifiedAt (statusTimestamps (docAfter (applyTransitions acceptAll
       [(2000, ''connected'', None), (3000, ''qualified'', None)] jane))) = Some 3000"
    by code_simp
  have "qualifiedAt = connectedAt \<or> qualifiedAt = qualifiedAt \<or> qualifiedAt = convertedAt"
    by simp
  from h show ?thesis
    by (rule conjI) (rule conjunct1[OF conjunct2[OF stage_timestamp_set_once[OF \<open>_ \<or> _\<close> h]]])
qed

section \<open>The length of the status history\<close>

lemma statusChanges_le: "statusChanges cur ss \<le> length ss"
  by (induction ss arbitrary: cur) (auto simp: le_SucI)

lemma statusChanges_distinct_adj:
  "distinct_adj (cur # ss) \<Longrightarrow> statusChanges cur ss = length ss"
  by (induction ss arbitrary: cur) auto

lemma applyTransitions_history_length:
  assumes "applyTransitions w ts d = Inr d'" and "\<not> isNew d" and "modifiedPaths d = []"
  shows "length (statusHistory d') =
           length (statusHistory d) + statusChanges (status d) (map (\<lambda>(now, s, n). s) ts)"
  using assms
proof (induction ts arbitrary: d)
  case Nil
  then show ?case by simp
next
  case (Cons x ts)
  obtain now s n where x: "x = (now, s, n)"
    by (cases x)
  from Cons.prems(1) x obtain d1 where
    step: "updateStatus w now s n d = Inr d1" and rest: "applyTransitions w ts d1 = Inr d'"
    by (auto split: sum.splits)
  have "\<not> isModified ''status'' d"
    using Cons.prems(3) by (simp add: isModified_def)
  with step Cons.prems(2)
  have len1: "length (statusHistory d1) = length (statusHistory d) + (if s = status d then 0 else 1)"
    by (rule updateStatus_history_length)
  have d1: "status d1 = s" "\<not> isNew d1" "modifiedPaths d1 = []"
    using updateStatus_Inr[OF step] by simp_all
  have "length (statusHistory d') =
          length (statusHistory d1) + statusChanges (status d1) (map (\<lambda>(now, s, n). s) ts)"
    using rest d1(2,3) by (rule Cons.IH)
  with len1 d1(1) x show ?case by simp
qed

text \<open>
  What a save checks on a document that is held in memory since it was constructed:
  the required paths \<open>email\<close> and \<open>phone\<close>, and the status that was assigned.
\<close>

lemma failingPaths_mem:
  "''email'' \<in> set (failingPaths d) \<longleftrightarrow> \<not> (email d \<noteq> [] \<and> length (email d) \<le> 100 \<and> matchesEmail (email d))"
  "''phone'' \<in> set (failingPaths d) \<longleftrightarrow> \<not> (phone d \<noteq> [] \<and> phoneDigitsOk (phone d))"
  "''status'' \<in> set (failingPaths d) \<longleftrightarrow> status d \<notin> set validStatuses"
  by (auto simp: failingPaths_def checkOptional_def split: option.splits)

lemma isSpace_not_digit: "isSpace c \<Longrightarrow> \<not> isDigit c"
  by (auto simp: isSpace_def isDigit_def)

lemma filter_digits_dropWhile: "filter isDigit (dropWhile isSpace s) = filter isDigit s"
  by (induction s) (auto simp: isSpace_not_digit)

lemma filter_digits_trim: "filter isDigit (trim s) = filter isDigit s"
proof -
  have "filter isDigit (trim s) = rev (filter isDigit (dropWhile isSpace (rev (dropWhile isSpace s))))"
    by (simp add: trim_def rev_filter)
  also have "\<dots> = rev (filter isDigit (rev (dropWhile isSpace s)))"
    by (simp only: filter_digits_dropWhile)
  also have "\<dots> = filter isDigit s"
    by (simp add: rev_filter[symmetric] filter_digits_dropWhile)
  finally show ?thesis .
qed

lemma filter_digits_stripNonDigits: "filter isDigit (stripNonDigits b s) = filter isDigit s"
  by (induction s arbitrary: b) auto

lemma phone_normalized:
  assumes "phoneDigitsOk (phone d)"
  shows "phone (normalizeFields d) \<noteq> [] \<and> phoneDigitsOk (phone (normalizeFields d))"
proof -
  have "filter isDigit (phone (normalizeFields d)) = filter isDigit (phone d)"
    by (simp add: normalizeFields_phone setPhone_def markModified_keeps filter_digits_trim
        formatPhoneNumber_def filter_digits_stripNonDigits)
  with assms have ok: "phoneDigitsOk (phone (normalizeFields d))"
    by (simp add: phoneDigitsOk_def)
  then have "phone (normalizeFields d) \<noteq> []"
    by (auto simp: phoneDigitsOk_def)
  with ok show ?thesis by simp
qed

lemma save_contact:
  assumes "save w now d = Inr d'" and "initPaths d = []"
    and "''email'' \<notin> set (failingPaths d)" and "''phone'' \<notin> set (failingPaths d)"
  shows "initPaths d' = [] \<and> ''email'' \<notin> set (failingPaths d') \<and> ''phone'' \<notin> set (failingPaths d')"
proof -
  have "phoneDigitsOk (phone d)"
    using assms(4) by (simp add: failingPaths_mem)
  then have "phone d' \<noteq> [] \<and> phoneDigitsOk (phone d')"
    unfolding save_Inr(6)[OF assms(1)] by (rule phone_normalized)
  moreover have "email d' = email d"
    using assms(1) by (rule save_Inr)
  moreover have "initPaths d' = []"
    using assms(1,2) by (rule save_Inr)
  ultimately show ?thesis
    using assms(3) by (simp add: failingPaths_mem)
qed

lemma construct_contact:
  assumes "Construct w newId now inp = Inr d"
  shows "\<not> isNew d \<and> modifiedPaths d = [] \<and> initPaths d = []
    \<and> ''email'' \<notin> set (failingPaths d) \<and> ''phone'' \<notin> set (failingPaths d)"
proof -
  define d0 where "d0 = newLead newId inp"
  have sv: "save w now d0 = Inr d"
    using assms by (simp add: Construct_def d0_def)
  have d0: "isNew d0" "initPaths d0 = []"
    by (simp_all add: d0_def newLead_def)
  have "validateLead d0 = []"
    using sv by (rule save_Inr)
  then have "\<forall>p \<in> set (failingPaths d0). p \<notin> set allPaths"
    using d0(1) by (simp add: validateLead_def pathsToValidate_def filter_empty_conv)
  moreover have "''email'' \<in> set allPaths" "''phone'' \<in> set allPaths"
    by (simp_all add: allPaths_def)
  ultimately have "''email'' \<notin> set (failingPaths d0)" "''phone'' \<notin> set (failingPaths d0)"
    by blast+
  with sv d0(2) have "initPaths d = [] \<and> ''email'' \<notin> set (failingPaths d) \<and> ''phone'' \<notin> set (failingPaths d)"
    by (rule save_contact)
  with save_Inr(2,3)[OF sv] show ?thesis by simp
qed

lemma updateStatus_held:
  assumes "s \<in> set validStatuses" and "\<forall>x. w x = None"
    and "\<not> isNew d" and "modifiedPaths d = []" and "initPaths d = []"
    and "''email'' \<notin> set (failingPaths d)" and "''phone'' \<notin> set (failingPaths d)"
  shows "\<exists>d'. updateStatus w now s n d = Inr d' \<and> initPaths d' = []
    \<and> ''email'' \<notin> set (failingPaths d') \<and> ''phone'' \<notin> set (failingPaths d')"
proof -
  define d2 where "d2 = (if truthy n \<and> statusHistory (setStatus s d) \<noteq> []
                         then (setStatus s d)\<lparr>statusNotes := n\<rparr> else setStatus s d)"
  have upd: "updateStatus w now s n d = save w now d2"
    unfolding d2_def using assms(1) by (rule updateStatus_valid)
  have d2: "\<not> isNew d2" "initPaths d2 = []" "email d2 = email d" "phone d2 = phone d" "status d2 = s"
    using assms(3,5) by (simp_all add: d2_def setStatus_keeps)
  have mod: "set (modifiedPaths d2) \<subseteq> {''status''}"
    using assms(4) by (auto simp: d2_def setStatus_def markModified_def)
  have contact: "''email'' \<notin> set (failingPaths d2)" "''phone'' \<notin> set (failingPaths d2)"
    "''status'' \<notin> set (failingPaths d2)"
    using assms(1,6,7) d2 by (simp_all add: failingPaths_mem)
  have "set (pathsToValidate d2) \<subseteq> {''email'', ''phone'', ''status''}"
    using d2(1,2) mod by (auto simp: pathsToValidate_def)
  with contact have valid: "validateLead d2 = []"
    by (auto simp: validateLead_def filter_empty_conv)
  have "\<exists>d'. save w now d2 = Inr d'"
    using valid assms(2) by (rule_tac save_cases[of d2 w now]) simp_all
  then obtain d' where sv: "save w now d2 = Inr d'" ..
  from sv d2(2) contact(1,2)
  have "initPaths d' = [] \<and> ''email'' \<notin> set (failingPaths d') \<and> ''phone'' \<notin> set (failingPaths d')"
    by (rule save_contact)
  with sv upd show ?thesis by simp
qed

lemma applyTransitions_held:
  assumes "\<forall>(now, s, n) \<in> set ts. s \<in> set validStatuses" and "\<forall>x. w x = None"
    and "\<not> isNew d" and "modifiedPaths d = []" and "initPaths d = []"
    and "''email'' \<notin> set (failingPaths d)" and "''phone'' \<notin> set (failingPaths d)"
  shows "\<exists>d'. applyTransitions w ts d = Inr d'"
  using assms(1,3-)
proof (induction ts arbitrary: d)
  case Nil
  then show ?case by simp
next
  case (Cons x ts)
  obtain now s n where x: "x = (now, s, n)"
    by (cases x)
  have s: "s \<in> set validStatuses" and rest: "\<forall>(now, s, n) \<in> set ts. s \<in> set validStatuses"
    using Cons.prems(1) x by simp_all
  from updateStatus_held[OF s assms(2) Cons.prems(2-), of now n]
  obtain d1 where step: "updateStatus w now s n d = Inr d1" and d1: "initPaths d1 = []"
    "''email'' \<notin> set (failingPaths d1)" "''phone'' \<notin> set (failingPaths d1)"
    by blast
  have "\<exists>d'. applyTransitions w ts d1 = Inr d'"
    using rest updateStatus_Inr(2,3)[OF step] d1 by (rule Cons.IH)
  with step x show ?case by simp
qed

text \<open>
  C1, as the code has it. On a freshly constructed lead that is transitioned in memory,
  a run of \<open>N\<close> successful transitions leaves a history of one entry more than the
  number of requests that ask for a status other than the one the lead holds at that
  moment. A request for the status the lead already holds appends nothing, so the
  length is at most \<open>N + 1\<close>, and it is \<open>N + 1\<close> when no request repeats the status in
  force. The run does succeed whenever every requested status is valid and the store
  accepts the writes: a save of the held document checks no more than \<open>email\<close>, \<open>phone\<close>
  and the status assigned.
\<close>

theorem history_counts_status_changes:
  assumes "Construct w newId now inp = Inr d0"
  shows "(\<forall>d. applyTransitions w ts d0 = Inr d \<longrightarrow>
            length (statusHistory d) = 1 + statusChanges ''new'' (map (\<lambda>(now, s, n). s) ts)
            \<and> length (statusHistory d) \<le> length ts + 1
            \<and> (distinct_adj (''new'' # map (\<lambda>(now, s, n). s) ts)
                 \<longrightarrow> length (statusHistory d) = length ts + 1))
    \<and> ((\<forall>(now, s, n) \<in> set ts. s \<in> set validStatuses) \<and> (\<forall>x. w x = None)
         \<longrightarrow> (\<exists>d. applyTransitions w ts d0 = Inr d))"
proof (intro conjI allI impI)
  have fresh: "status d0 = ''new''" "length (statusHistory d0) = 1"
    using construct_fresh[OF assms] by simp_all
  have held: "\<not> isNew d0" "modifiedPaths d0 = []" "initPaths d0 = []"
    "''email'' \<notin> set (failingPaths d0)" "''phone'' \<notin> set (failingPaths d0)"
    using construct_contact[OF assms] by simp_all
  {
    fix d assume run: "applyTransitions w ts d0 = Inr d"
    show len: "length (statusHistory d) = 1 + statusChanges ''new'' (map (\<lambda>(now, s, n). s) ts)"
      using applyTransitions_history_length[OF run held(1,2)] fresh by simp
    show "length (statusHistory d) \<le> length ts + 1"
      using len statusChanges_le[of "''new''" "map (\<lambda>(now, s, n). s) ts"] by simp
    assume "distinct_adj (''new'' # map (\<lambda>(now, s, n). s) ts)"
    then show "length (statusHistory d) = length ts + 1"
      using len statusChanges_distinct_adj[of "''new''" "map (\<lambda>(now, s, n). s) ts"] by simp
  }
  assume "(\<forall>(now, s, n) \<in> set ts. s \<in> set validStatuses) \<and> (\<forall>x. w x = None)"
  then show "\<exists>d. applyTransitions w ts d0 = Inr d"
    using held by (intro applyTransitions_held) simp_all
qed

theorem history_counts_status_changes_witness:
  "\<not> isl (Construct acceptAll id1 1000 longInput)
   \<and> map_option length (name (projr (Construct acceptAll id1 1000 longInput))) = Some 51
   \<and> \<not> isl (applyTransitions acceptAll
        [(2000, ''connected'', None), (3000, ''qualified'', None),
         (3500, ''qualified'', Some ''again''), (4000, ''connected'', None)]
        (projr (Construct acceptAll id1 1000 longInput)))
   \<and> length (statusHistory (projr (applyTransitions acceptAll
        [(2000, ''connected'', None), (3000, ''qualified'', None),
         (3500, ''qualified'', Some ''again''), (4000, ''connected'', None)]
        (projr (Construct acceptAll id1 1000 longInput))))) = 4"
proof -
  define ts where "ts = [(2000 :: int, ''connected'', None :: string option), (3000, ''qualified'', None),
         (3500, ''qualified'', Some ''again''), (4000, ''connected'', None)]"
  define d0 where "d0 = projr (Construct acceptAll id1 1000 longInput)"
  have h0: "\<not> isl (Construct acceptAll id1 1000 longInput)"
    by code_simp
  then have h1: "Construct acceptAll id1 1000 longInput = Inr d0"
    by (simp add: d0_def)
  have long: "map_option length (name (projr (Construct acceptAll id1 1000 longInput))) = Some 51"
    by code_simp
  have valid: "\<forall>(now, s, n) \<in> set ts. s \<in> set validStatuses"
    by (simp add: ts_def validStatuses_def)
  have accept: "\<forall>x. acceptAll x = None"
    by (simp add: acceptAll_def)
  have count: "1 + statusChanges ''new'' (map (\<lambda>(now, s, n). s) ts) = 4"
    by (simp add: ts_def)
  note claim = history_counts_status_changes[OF h1, of ts]
  from conjunct2[OF claim] valid accept obtain d where run: "applyTransitions acceptAll ts d0 = Inr d"
    by blast
  from conjunct1[OF claim] run have "length (statusHistory d) = 1 + statusChanges ''new'' (map (\<lambda>(now, s, n). s) ts)"
    by blast
  with count have len: "length (statusHistory d) = 4"
    by (rule_tac trans)
  have ran: "\<not> isl (applyTransitions acceptAll ts d0)"
    and four: "length (statusHistory (projr (applyTransitions acceptAll ts d0))) = 4"
    unfolding run using len by simp_all
  show ?thesis
    by (rule conjI[OF h0 conjI[OF long conjI[OF ran[unfolded ts_def d0_def] four[unfolded ts_def d0_def]]]])
qed

text \<open>
  The claim as the specification words it fails on the smallest run: one request for
  \<open>new\<close> on a fresh lead succeeds and the history keeps its single entry, on the
  document held in memory and on the same document loaded from the store.
\<close>

theorem repeated_status_counterexample:
  "Construct acceptAll id1 1000 janeInput = Inr jane
   \<and> applyTransitions acceptAll [(2000, ''new'', None)] jane = Inr jane
   \<and> applyTransitions acceptAll [(2000, ''new'', None)] (hydrate jane) = Inr (hydrate jane)
   \<and> length (statusHistory jane) = 1
   \<and> length (statusHistory (hydrate jane)) = 1
   \<and> length (statusHistory jane) \<noteq> length [(2000 :: int, ''new'', None :: string option)] + 1"
  by code_simp

section \<open>Progression metrics\<close>

lemma metricsLoop_total:
  "totalProgressions (metricsLoop h now i m) = totalProgressions m"
proof (induction h now i m rule: metricsLoop.induct)
  case (1 h now i m)
  then show ?case
    by (subst metricsLoop.simps) simp
qed

lemma metricsLoop_untouched:
  "(\<forall>j. i \<le> j \<and> Suc j < length h \<longrightarrow> h_status (h ! j) \<noteq> s) \<Longrightarrow>
   timeInEachStatus (metricsLoop h now i m) s = timeInEachStatus m s"
proof (induction h now i m rule: metricsLoop.induct)
  case (1 h now i m)
  show ?case
  proof (cases "Suc i < length h")
    case True
    have "timeInEachStatus (metricsLoop h now i m) s =
          timeInEachStatus (metricsLoop h now (Suc i)
            (m\<lparr>timeInEachStatus :=
                 (timeInEachStatus m)(h_status (h ! i) \<mapsto> h_timestamp (h ! Suc i) - h_timestamp (h ! i))\<rparr>)) s"
      using True by (subst metricsLoop.simps) simp
    also have "\<dots> = timeInEachStatus
            (m\<lparr>timeInEachStatus :=
                 (timeInEachStatus m)(h_status (h ! i) \<mapsto> h_timestamp (h ! Suc i) - h_timestamp (h ! i))\<rparr>) s"
      using True "1.prems" by (intro "1.IH"(1)) auto
    also have "\<dots> = timeInEachStatus m s"
      using True "1.prems" by auto
    finally show ?thesis .
  next
    case False
    show ?thesis
    proof (cases "i < length h")
      case True
      have "timeInEachStatus (metricsLoop h now i m) s =
            timeInEachStatus (metricsLoop h now (Suc i)
               (m\<lparr>currentStatusDuration := Some (now - h_timestamp (h ! i))\<rparr>)) s"
        using True False by (subst metricsLoop.simps) simp
      also have "\<dots> = timeInEachStatus (m\<lparr>currentStatusDuration := Some (now - h_timestamp (h ! i))\<rparr>) s"
        using True False by (intro "1.IH"(2)) auto
      finally show ?thesis by simp
    next
      case False
      then show ?thesis by (subst metricsLoop.simps) simp
    qed
  qed
qed

lemma metricsLoop_last_write:
  "i \<le> j \<Longrightarrow> Suc j < length h \<Longrightarrow>
   (\<forall>k. j < k \<and> Suc k < length h \<longrightarrow> h_status (h ! k) \<noteq> h_status (h ! j)) \<Longrightarrow>
   timeInEachStatus (metricsLoop h now i m) (h_status (h ! j)) =
     Some (h_timestamp (h ! Suc j) - h_timestamp (h ! j))"
proof (induction h now i m rule: metricsLoop.induct)
  case (1 h now i m)
  have lt: "Suc i < length h"
    using "1.prems"(1,2) by simp
  define m' where "m' = m\<lparr>timeInEachStatus :=
      (timeInEachStatus m)(h_status (h ! i) \<mapsto> h_timestamp (h ! Suc i) - h_timestamp (h ! i))\<rparr>"
  have unfold: "metricsLoop h now i m = metricsLoop h now (Suc i) m'"
    using lt by (subst metricsLoop.simps) (simp add: m'_def)
  show ?case
  proof (cases "i = j")
    case True
    have "timeInEachStatus (metricsLoop h now (Suc i) m') (h_status (h ! j)) =
          timeInEachStatus m' (h_status (h ! j))"
      using "1.prems"(3) True by (intro metricsLoop_untouched) auto
    also have "\<dots> = Some (h_timestamp (h ! Suc j) - h_timestamp (h ! j))"
      using True by (simp add: m'_def)
    finally show ?thesis
      unfolding unfold .
  next
    case False
    then have "Suc i \<le> j"
      using "1.prems"(1) by simp
    then have "timeInEachStatus (metricsLoop h now (Suc i) m') (h_status (h ! j)) =
          Some (h_timestamp (h ! Suc j) - h_timestamp (h ! j))"
      unfolding m'_def using lt "1.prems"(2,3) by (intro "1.IH"(1)) auto
    then show ?thesis
      unfolding unfold .
  qed
qed

lemma metricsLoop_current:
  "i < length h \<Longrightarrow>
   currentStatusDuration (metricsLoop h now i m) = Some (now - h_timestamp (last h))"
proof (induction h now i m rule: metricsLoop.induct)
  case (1 h now i m)
  show ?case
  proof (cases "Suc i < length h")
    case True
    then show ?thesis
      using "1.IH"(1) "1.prems" by (subst metricsLoop.simps) simp
  next
    case False
    with "1.prems" have i: "i = length h - 1" "h \<noteq> []"
      by auto
    have "metricsLoop h now i m =
          metricsLoop h now (Suc i) (m\<lparr>currentStatusDuration := Some (now - h_timestamp (h ! i))\<rparr>)"
      using False "1.prems" by (subst metricsLoop.simps) simp
    also have "\<dots> = m\<lparr>currentStatusDuration := Some (now - h_timestamp (h ! i))\<rparr>"
      using False by (subst metricsLoop.simps) simp
    finally show ?thesis
      using i by (simp add: last_conv_nth)
  qed
qed

text \<open>
  C7. \<open>getProgressionMetrics\<close> returns \<open>null\<close> exactly when the history is empty.
  Otherwise \<open>totalProgressions\<close> is the length of the history minus one, and the map
  holds, under the status of entry \<open>j\<close>, the time from entry \<open>j\<close> to entry \<open>j + 1\<close>,
  where \<open>j\<close> is the last entry but the final one that has this status: a later pair
  overwrites an earlier one, nothing is summed. A status that no entry but the final one
  has is not a key of the map.
\<close>

theorem getProgressionMetrics_last_write_wins:
  "(getProgressionMetrics now d = None \<longleftrightarrow> statusHistory d = [])
   \<and> (\<forall>m. getProgressionMetrics now d = Some m \<longrightarrow>
        totalProgressions m = int (length (statusHistory d)) - 1
        \<and> (\<forall>j. Suc j < length (statusHistory d)
               \<and> (\<forall>k. j < k \<and> Suc k < length (statusHistory d)
                      \<longrightarrow> h_status (statusHistory d ! k) \<noteq> h_status (statusHistory d ! j))
             \<longrightarrow> timeInEachStatus m (h_status (statusHistory d ! j)) =
                   Some (h_timestamp (statusHistory d ! Suc j) - h_timestamp (statusHistory d ! j)))
        \<and> (\<forall>s. (\<forall>j. Suc j < length (statusHistory d) \<longrightarrow> h_status (statusHistory d ! j) \<noteq> s)
             \<longrightarrow> timeInEachStatus m s = None)
        \<and> currentStatusDuration m = Some (now - h_timestamp (last (statusHistory d))))"
proof (cases "statusHistory d = []")
  case True
  then show ?thesis by (simp add: getProgressionMetrics_def)
next
  case False
  define h where "h = statusHistory d"
  define m0 where "m0 = \<lparr>totalProgressions = int (length h) - 1,
      timeInEachStatus = (Map.empty :: string \<Rightarrow> int option), currentStatusDuration = None\<rparr>"
  have res: "getProgressionMetrics now d = Some (metricsLoop h now 0 m0)"
    using False by (simp add: getProgressionMetrics_def h_def m0_def)
  have a: "totalProgressions (metricsLoop h now 0 m0) = int (length h) - 1"
    by (simp add: metricsLoop_total m0_def)
  have b: "timeInEachStatus (metricsLoop h now 0 m0) (h_status (h ! j)) =
        Some (h_timestamp (h ! Suc j) - h_timestamp (h ! j))"
    if "Suc j < length h" "\<forall>k. j < k \<and> Suc k < length h \<longrightarrow> h_status (h ! k) \<noteq> h_status (h ! j)" for j
    using that by (intro metricsLoop_last_write) auto
  have c: "timeInEachStatus (metricsLoop h now 0 m0) s = None"
    if "\<forall>j. Suc j < length h \<longrightarrow> h_status (h ! j) \<noteq> s" for s
  proof -
    have "timeInEachStatus (metricsLoop h now 0 m0) s = timeInEachStatus m0 s"
      using that by (intro metricsLoop_untouched) auto
    then show ?thesis by (simp add: m0_def)
  qed
  have e: "currentStatusDuration (metricsLoop h now 0 m0) = Some (now - h_timestamp (last h))"
    using False by (intro metricsLoop_current) (simp add: h_def)
  show ?thesis
    using False a b c e unfolding res h_def[symmetric] by simp
qed

theorem getProgressionMetrics_last_write_wins_witness:
  "getProgressionMetrics 5000 returningLead \<noteq> None
   \<and> totalProgressions (the (getProgressionMetrics 5000 returningLead)) = 3
   \<and> timeInEachStatus (the (getProgressionMetrics 5000 returningLead)) ''new'' = Some 1000
   \<and> timeInEachStatus (the (getProgressionMetrics 5000 returningLead)) ''connected'' = Some 200
   \<and> timeInEachStatus (the (getProgressionMetrics 5000 returningLead)) ''converted'' = None"
proof -
  note t = getProgressionMetrics_last_write_wins[of 5000 returningLead]
  have hist: "statusHistory returningLead =
            [\<lparr>h_status = ''new'', h_timestamp = 1000, h_notes = None\<rparr>,
             \<lparr>h_status = ''connected'', h_timestamp = 1500, h_notes = None\<rparr>,
             \<lparr>h_status = ''new'', h_timestamp = 1700, h_notes = None\<rparr>,
             \<lparr>h_status = ''qualified'', h_timestamp = 2700, h_notes = None\<rparr>]"
    by (simp add: returningLead_def)
  have ne: "getProgressionMetrics 5000 returningLead \<noteq> None"
    using t hist by simp
  then obtain m where m: "getProgressionMetrics 5000 returningLead = Some m"
    by auto
  have total: "totalProgressions m = 3"
    using t m hist by simp
  have pairs: "Suc j < 4 \<Longrightarrow>
      \<forall>k. j < k \<and> Suc k < 4 \<longrightarrow> h_status (statusHistory returningLead ! k) \<noteq> h_status (statusHistory returningLead ! j) \<Longrightarrow>
      timeInEachStatus m (h_status (statusHistory returningLead ! j)) =
        Some (h_timestamp (statusHistory returningLead ! Suc j) - h_timestamp (statusHistory returningLead ! j))" for j
    using t m hist by simp
  have absent: "\<forall>j. Suc j < 4 \<longrightarrow> h_status (statusHistory returningLead ! j) \<noteq> s \<Longrightarrow>
      timeInEachStatus m s = None" for s
    using t m hist by simp
  have new: "timeInEachStatus m ''new'' = Some 1000"
    using pairs[of 2] by (simp add: hist)
  have con: "timeInEachStatus m ''connected'' = Some 200"
  proof -
    have "\<forall>k. 1 < k \<and> Suc k < 4 \<longrightarrow>
        h_status (statusHistory returningLead ! k) \<noteq> h_status (statusHistory returningLead ! 1)"
    proof (intro allI impI)
      fix k :: nat assume "1 < k \<and> Suc k < 4"
      then have "k = 2" by arith
      then show "h_status (statusHistory returningLead ! k) \<noteq> h_status (statusHistory returningLead ! 1)"
        by (simp add: hist)
    qed
    with pairs[of 1] show ?thesis by (simp add: hist)
  qed
  have conv: "timeInEachStatus m ''converted'' = None"
  proof (rule absent, intro allI impI)
    fix j :: nat assume "Suc j < 4"
    then have "j = 0 \<or> j = 1 \<or> j = 2" by arith
    then show "h_status (statusHistory returningLead ! j) \<noteq> ''converted''"
      by (auto simp: hist)
  qed
  show ?thesis
    using ne total new con conv by (simp add: m)
qed

section \<open>The conversion funnel\<close>

lemma fold_funnelStep:
  "fold funnelStep ls f =
     \<lparr>total = total f + length ls,
      connected = connected f
        + length (filter (\<lambda>d. status d = ''connected'' \<or> status d = ''qualified'' \<or> status d = ''converted'') ls),
      qualified = qualified f
        + length (filter (\<lambda>d. status d = ''qualified'' \<or> status d = ''converted'') ls),
      converted = converted f + length (filter (\<lambda>d. status d = ''converted'') ls)\<rparr>"
  by (induction ls arbitrary: f) (simp_all add: funnelStep_def)

lemma ComputeConversionFunnel_counts:
  "ComputeConversionFunnel ls =
     \<lparr>total = length ls,
      connected = length (filter (\<lambda>d. status d = ''connected'' \<or> status d = ''qualified'' \<or> status d = ''converted'') ls),
      qualified = length (filter (\<lambda>d. status d = ''qualified'' \<or> status d = ''converted'') ls),
      converted = length (filter (\<lambda>d. status d = ''converted'') ls)\<rparr>"
proof (cases "ls = []")
  case True
  then show ?thesis
    by (simp add: ComputeConversionFunnel_def conversionFunnel_def emptyFunnel_def)
next
  case False
  then have "ComputeConversionFunnel ls = fold funnelStep ls emptyFunnel"
    by (simp add: ComputeConversionFunnel_def conversionFunnel_def)
  then show ?thesis
    by (simp add: fold_funnelStep emptyFunnel_def)
qed

lemma length_filter_mono:
  "(\<And>x. P x \<Longrightarrow> Q x) \<Longrightarrow> length (filter P xs) \<le> length (filter Q xs)"
  by (induction xs) auto

text \<open>
  C5. For every list of leads the funnel counts are the numbers of leads whose current
  status is at or past the stage, and they are ordered:
  \<open>total \<ge> connected \<ge> qualified \<ge> converted \<ge> 0\<close>.
\<close>

theorem funnel_counts_ordered:
  "converted (ComputeConversionFunnel ls) \<le> qualified (ComputeConversionFunnel ls)
   \<and> qualified (ComputeConversionFunnel ls) \<le> connected (ComputeConversionFunnel ls)
   \<and> connected (ComputeConversionFunnel ls) \<le> total (ComputeConversionFunnel ls)
   \<and> 0 \<le> converted (ComputeConversionFunnel ls)
   \<and> total (ComputeConversionFunnel ls) = length ls
   \<and> connected (ComputeConversionFunnel ls) =
       length (filter (\<lambda>d. status d = ''connected'' \<or> status d = ''qualified'' \<or> status d = ''converted'') ls)
   \<and> qualified (ComputeConversionFunnel ls) =
       length (filter (\<lambda>d. status d = ''qualified'' \<or> status d = ''converted'') ls)
   \<and> converted (ComputeConversionFunnel ls) = length (filter (\<lambda>d. status d = ''converted'') ls)"
proof -
  have a: "length (filter (\<lambda>d. status d = ''converted'') ls)
      \<le> length (filter (\<lambda>d. status d = ''qualified'' \<or> status d = ''converted'') ls)"
    by (rule length_filter_mono) simp
  have b: "length (filter (\<lambda>d. status d = ''qualified'' \<or> status d = ''converted'') ls)
      \<le> length (filter (\<lambda>d. status d = ''connected'' \<or> status d = ''qualified'' \<or> status d = ''converted'') ls)"
    by (rule length_filter_mono) auto
  have c: "length (filter (\<lambda>d. status d = ''connected'' \<or> status d = ''qualified'' \<or> status d = ''converted'') ls)
      \<le> length ls"
    by (rule length_filter_le)
  show ?thesis
    using a b c by (simp add: ComputeConversionFunnel_counts)
qed


section \<open>Rounding to a double\<close>

lemma pow2_powi: "pow2 k = 2 powi k"
  by (simp add: pow2_def power_int_def field_simps)

lemma pow2_pos: "0 < pow2 k"
  by (simp add: pow2_powi)

lemma pow2_add: "pow2 (a + b) = pow2 a * pow2 b"
  by (simp add: pow2_powi power_int_add)

lemma pow2_nat: "pow2 (int n) = 2 ^ n"
  by (simp add: pow2_def)

lemma pow2_mono: "a \<le> b \<Longrightarrow> pow2 a \<le> pow2 b"
  by (simp add: pow2_powi power_int_increasing)

lemma pow2_minus_nat: "pow2 (k - int n) = pow2 k / 2 ^ n"
proof -
  have "pow2 k = pow2 (k - int n) * pow2 (int n)"
    using pow2_add[of "k - int n" "int n"] by simp
  then show ?thesis
    by (simp add: pow2_nat)
qed

lemma bitLength_bounds:
  "0 < n \<Longrightarrow> 0 < bitLength n \<and> 2 ^ nat (bitLength n - 1) \<le> n \<and> n < 2 ^ nat (bitLength n)"
proof (induction n rule: bitLength.induct)
  case (1 n)
  show ?case
  proof (cases "n div 2 = 0")
    case True
    with 1(2) have n: "n = 1"
      by presburger
    have "bitLength 1 = 1"
      by (simp add: bitLength.simps[of 1] bitLength.simps[of 0])
    with n show ?thesis by simp
  next
    case False
    with 1(2) have m: "0 < n div 2"
      by presburger
    from 1(2) have nle: "\<not> n \<le> 0"
      by simp
    note ih = 1(1)[OF nle m]
    have bl: "bitLength n = bitLength (n div 2) + 1"
      using nle by (subst bitLength.simps) simp
    define j where "j = nat (bitLength (n div 2) - 1)"
    have blpos: "0 < bitLength (n div 2)"
      using ih by simp
    have j: "nat (bitLength (n div 2)) = Suc j" "nat (bitLength n - 1) = Suc j" "nat (bitLength n) = Suc (Suc j)"
      using blpos unfolding bl j_def by linarith+
    have lo: "2 ^ j \<le> n div 2"
      using ih by (simp add: j_def)
    have hi: "n div 2 < 2 ^ Suc j"
      using ih unfolding j(1) by simp
    have "2 * 2 ^ j \<le> n"
      using lo by presburger
    moreover have "n < 2 * 2 ^ Suc j"
      using hi by presburger
    moreover have "0 < bitLength n"
      using blpos bl by simp
    ultimately show ?thesis
      unfolding j by simp
  qed
qed

lemma bitLength_pow2:
  assumes "0 < n"
  shows "pow2 (bitLength n - 1) \<le> of_int n" and "of_int n < pow2 (bitLength n)"
proof -
  note b = bitLength_bounds[OF assms]
  have "pow2 (bitLength n - 1) = 2 ^ nat (bitLength n - 1)"
    using b by (simp add: pow2_def)
  also have "\<dots> = of_int (2 ^ nat (bitLength n - 1))"
    by simp
  also have "\<dots> \<le> of_int n"
    using b by (simp only: of_int_le_iff)
  finally show "pow2 (bitLength n - 1) \<le> of_int n" .
  have "(of_int n :: rat) < of_int (2 ^ nat (bitLength n))"
    using b by (simp only: of_int_less_iff)
  also have "\<dots> = pow2 (bitLength n)"
    using b by (simp add: pow2_def)
  finally show "of_int n < pow2 (bitLength n)" .
qed

lemma binade_le:
  assumes "0 < x"
  shows "pow2 (binade x) \<le> x"
proof -
  obtain p q where pq: "quotient_of x = (p, q)"
    by (cases "quotient_of x")
  have q: "0 < q"
    using pq by (rule quotient_of_denom_pos)
  have x: "x = of_int p / of_int q"
    using pq by (rule quotient_of_div)
  have p: "0 < p"
    using assms q x by (simp add: zero_less_divide_iff)
  define k where "k = bitLength p - bitLength q"
  show ?thesis
  proof (cases "pow2 k \<le> x")
    case True
    then show ?thesis
      by (simp add: binade_def pq k_def Let_def)
  next
    case False
    have "pow2 (k - 1) * of_int q \<le> pow2 (k - 1) * pow2 (bitLength q)"
      using bitLength_pow2(2)[OF q] pow2_pos[of "k - 1"] by simp
    also have "\<dots> = pow2 (bitLength p - 1)"
      using pow2_add[of "k - 1" "bitLength q"] by (simp add: k_def)
    also have "\<dots> \<le> of_int p"
      using p by (rule bitLength_pow2)
    finally have "pow2 (k - 1) \<le> x"
      using q by (simp add: x pos_le_divide_eq)
    with False show ?thesis
      by (simp add: binade_def pq k_def Let_def)
  qed
qed

lemma binade_less:
  assumes "0 < x"
  shows "x < pow2 (binade x + 1)"
proof -
  obtain p q where pq: "quotient_of x = (p, q)"
    by (cases "quotient_of x")
  have q: "0 < q"
    using pq by (rule quotient_of_denom_pos)
  have x: "x = of_int p / of_int q"
    using pq by (rule quotient_of_div)
  have p: "0 < p"
    using assms q x by (simp add: zero_less_divide_iff)
  define k where "k = bitLength p - bitLength q"
  show ?thesis
  proof (cases "pow2 k \<le> x")
    case False
    then show ?thesis
      by (simp add: binade_def pq k_def Let_def)
  next
    case True
    have "of_int p < pow2 (bitLength p)"
      using p by (rule bitLength_pow2)
    also have "\<dots> = pow2 (k + 1) * pow2 (bitLength q - 1)"
      using pow2_add[of "k + 1" "bitLength q - 1"] by (simp add: k_def)
    also have "\<dots> \<le> pow2 (k + 1) * of_int q"
      using bitLength_pow2(1)[OF q] pow2_pos[of "k + 1"] by simp
    finally have "x < pow2 (k + 1)"
      using q by (simp add: x pos_divide_less_eq)
    with True show ?thesis
      by (simp add: binade_def pq k_def Let_def)
  qed
qed

lemma roundHalfEven_near: "\<bar>of_int (roundHalfEven m) - m\<bar> \<le> 1 / 2"
proof -
  define r where "r = m - of_int \<lfloor>m\<rfloor>"
  have r: "0 \<le> r" "r < 1"
    unfolding r_def by linarith+
  have "of_int (roundHalfEven m) - m =
      (if r < 1 / 2 then - r else if 1 / 2 < r then 1 - r else if even \<lfloor>m\<rfloor> then - r else 1 - r)"
    by (simp add: roundHalfEven_def Let_def r_def)
  then show ?thesis
    using r by (simp split: if_splits)
qed

lemma roundHalfEven_int: "roundHalfEven (of_int z) = z"
  by (simp add: roundHalfEven_def)

lemma roundHalfEven_nonneg: "0 \<le> m \<Longrightarrow> 0 \<le> roundHalfEven m"
  by (auto simp: roundHalfEven_def Let_def)

lemma roundDouble_nonneg: "0 \<le> x \<Longrightarrow> 0 \<le> roundDouble x"
  using pow2_pos[of "binade \<bar>x\<bar> - 52"]
  by (auto simp: roundDouble_def Let_def intro!: mult_nonneg_nonneg roundHalfEven_nonneg)

text \<open>The relative error of one rounding is at most \<open>2\<^sup>-\<^sup>5\<^sup>3\<close>.\<close>

lemma roundDouble_error:
  assumes "0 \<le> x"
  shows "\<bar>roundDouble x - x\<bar> \<le> x / 2 ^ 53"
proof (cases "x = 0")
  case True
  then show ?thesis by (simp add: roundDouble_def)
next
  case False
  with assms have pos: "0 < x" by simp
  define ulp where "ulp = pow2 (binade x - 52)"
  have ulp: "0 < ulp"
    unfolding ulp_def by (rule pow2_pos)
  have "ulp = pow2 (binade x) / 2 ^ 52"
    unfolding ulp_def using pow2_minus_nat[of "binade x" 52] by simp
  also have "\<dots> \<le> x / 2 ^ 52"
    using binade_le[OF pos] by (simp add: divide_right_mono)
  finally have small: "ulp \<le> x / 2 ^ 52" .
  have rd: "roundDouble x = of_int (roundHalfEven (x / ulp)) * ulp"
    using pos by (simp add: roundDouble_def ulp_def Let_def)
  have "roundDouble x - x = (of_int (roundHalfEven (x / ulp)) - x / ulp) * ulp"
    using ulp by (simp add: rd field_simps)
  then have "\<bar>roundDouble x - x\<bar> = \<bar>of_int (roundHalfEven (x / ulp)) - x / ulp\<bar> * ulp"
    using ulp by (simp add: abs_mult)
  also have "\<dots> \<le> 1 / 2 * ulp"
    using roundHalfEven_near[of "x / ulp"] ulp by (intro mult_right_mono) simp_all
  also have "\<dots> \<le> 1 / 2 * (x / 2 ^ 52)"
    using small by simp
  also have "\<dots> = x / 2 ^ 53"
    by simp
  finally show ?thesis .
qed

text \<open>A count below \<open>2\<^sup>5\<^sup>3\<close> is a double.\<close>

lemma roundDouble_count:
  assumes "n < 2 ^ 53"
  shows "roundDouble (of_nat n) = of_nat n"
proof (cases "n = 0")
  case True
  then show ?thesis by (simp add: roundDouble_def)
next
  case False
  define x :: rat where "x = of_nat n"
  have pos: "0 < x"
    using False by (simp add: x_def)
  have "binade x < 53"
  proof (rule ccontr)
    assume "\<not> binade x < 53"
    then have "pow2 53 \<le> pow2 (binade x)"
      by (intro pow2_mono) simp
    also have "\<dots> \<le> x"
      using pos by (rule binade_le)
    finally have "(2 :: rat) ^ 53 \<le> of_nat n"
      using pow2_nat[of 53] by (simp add: x_def)
    then have "(of_nat (2 ^ 53) :: rat) \<le> of_nat n"
      by simp
    then have "2 ^ 53 \<le> n"
      by (simp only: of_nat_le_iff)
    with assms show False by simp
  qed
  define j where "j = nat (52 - binade x)"
  have j: "binade x - 52 = - int j"
    using \<open>binade x < 53\<close> by (simp add: j_def)
  have ulp: "pow2 (binade x - 52) = 1 / 2 ^ j"
    unfolding j using pow2_minus_nat[of 0 j] by (simp add: pow2_def)
  have "x / (1 / 2 ^ j) = of_int (int n * 2 ^ j)"
    by (simp add: x_def)
  then have "roundHalfEven (x / (1 / 2 ^ j)) = int n * 2 ^ j"
    by (simp only: roundHalfEven_int)
  then have "of_int (roundHalfEven (x / (1 / 2 ^ j))) * (1 / 2 ^ j) = x"
    by (simp add: x_def)
  then have "roundDouble x = x"
    using pos unfolding roundDouble_def Let_def ulp[symmetric] by simp
  then show ?thesis
    by (simp add: x_def)
qed

section \<open>Conversion rates\<close>

lemma percentage_rounded:
  assumes "a \<le> 10 ^ 11" and "0 < b" and "b \<le> 10 ^ 11"
  shows "toFixed2 (percentage a b) = Fixed (fixedString False (hundredths (percentage a b)))"
    and "specRoundedPercentage a b (hundredths (percentage a b))"
proof -
  define q :: rat where "q = of_nat a / of_nat b"
  define q' where "q' = roundDouble q"
  define p where "p = roundDouble (q' * 100)"
  define n where "n = hundredths p"
  have small: "a < 2 ^ 53" "b < 2 ^ 53"
    using assms(1,3) by simp_all
  have perc: "percentage a b = p"
    by (simp add: percentage_def jsTimes_def jsDivide_def jsNumber_def roundDouble_count[OF small(1)]
        roundDouble_count[OF small(2)] p_def q'_def q_def)
  have q0: "0 \<le> q"
    by (simp add: q_def)
  have qb: "q * of_nat b = of_nat a"
    using assms(2) by (simp add: q_def)
  have "of_nat a \<le> (of_nat a :: rat) * of_nat b"
    using assms(2) by (simp add: mult_le_cancel_left1)
  then have qa: "q \<le> of_nat a"
    using assms(2) by (simp add: q_def pos_divide_le_eq)
  have "(of_nat a :: rat) \<le> of_nat (10 ^ 11)"
    using assms(1) by (simp only: of_nat_le_iff)
  then have a11: "(of_nat a :: rat) \<le> 100000000000"
    by simp
  have q'0: "0 \<le> q'"
    unfolding q'_def using q0 by (rule roundDouble_nonneg)
  have e1: "\<bar>q' - q\<bar> \<le> q / 9007199254740992"
    using roundDouble_error[OF q0] by (simp add: q'_def)
  have p0: "0 \<le> p"
    unfolding p_def using q'0 by (intro roundDouble_nonneg) simp
  have "\<bar>p - q' * 100\<bar> \<le> q' * 100 / 2 ^ 53"
    unfolding p_def using q'0 by (intro roundDouble_error) simp
  then have e2: "\<bar>p - q' * 100\<bar> \<le> q' * 100 / 9007199254740992"
    by simp
  have e3: "\<bar>p - 100 * q\<bar> \<le> 300 * q / 9007199254740992"
    using e1 e2 q0 q'0 by linarith
  have "p < 1000000000000000000000"
    using e3 qa a11 q0 by linarith
  then have big: "p < 10 ^ 21"
    by simp
  have n0: "0 \<le> n"
    using p0 by (simp add: n_def hundredths_def)
  have fl: "of_int n \<le> p * 100 + 1 / 2" "p * 100 + 1 / 2 < of_int n + 1"
    using p0 unfolding n_def hundredths_def by (simp_all; linarith)+
  have e4: "\<bar>of_int n - 10000 * q\<bar> \<le> 1 / 2 + 30000 * q / 9007199254740992"
    using fl e3 by linarith
  have "\<bar>of_int n - 10000 * q\<bar> * of_nat b \<le> (1 / 2 + 30000 * q / 9007199254740992) * of_nat b"
    using e4 by (rule mult_right_mono) simp
  also have "\<dots> = of_nat b / 2 + 30000 * (q * of_nat b) / 9007199254740992"
    by (simp add: field_simps)
  also have "\<dots> < of_nat b / 2 + 1 / 2"
    unfolding qb using a11 by simp
  finally have e5: "\<bar>of_int n - 10000 * q\<bar> * of_nat b < of_nat b / 2 + 1 / 2" .
  define z where "z = n * int b - 10000 * int a"
  have "(of_int n - 10000 * q) * of_nat b = (of_int z :: rat)"
    using qb by (simp add: z_def algebra_simps)
  then have "\<bar>(of_int n - 10000 * q) * of_nat b\<bar> = \<bar>of_int z :: rat\<bar>"
    by (rule arg_cong)
  then have "\<bar>of_int n - 10000 * q\<bar> * of_nat b = (of_int \<bar>z\<bar> :: rat)"
    by (simp add: abs_mult)
  with e5 have "(of_int (2 * \<bar>z\<bar>) :: rat) < of_int (int b + 1)"
    by simp
  then have "2 * \<bar>z\<bar> < int b + 1"
    by (simp only: of_int_less_iff)
  then have "2 * \<bar>z\<bar> \<le> int b"
    by simp
  then have "(of_int (2 * \<bar>z\<bar>) :: rat) \<le> of_int (int b)"
    by (simp only: of_int_le_iff)
  then have "\<bar>of_int n - 10000 * q\<bar> * of_nat b \<le> (1 / 2) * of_nat b"
    unfolding \<open>\<bar>of_int n - 10000 * q\<bar> * of_nat b = (of_int \<bar>z\<bar> :: rat)\<close> by simp
  then have "\<bar>of_int n - 10000 * q\<bar> \<le> 1 / 2"
    using assms(2) by (simp only: mult_le_cancel_right)
  then have "\<bar>of_int n / 100 - 100 * q\<bar> \<le> 1 / 200"
    by linarith
  with n0 show "specRoundedPercentage a b (hundredths (percentage a b))"
    by (simp add: specRoundedPercentage_def perc n_def[symmetric] q_def)
  show "toFixed2 (percentage a b) = Fixed (fixedString False (hundredths (percentage a b)))"
    using big p0 by (simp add: toFixed2_def perc)
qed

lemma jsNumber_positive:
  assumes "n \<le> 10 ^ 11"
  shows "0 < jsNumber n \<longleftrightarrow> 0 < n"
proof -
  have "n < 2 ^ 53"
    using assms by simp
  then show ?thesis
    by (simp add: jsNumber_def roundDouble_count)
qed

text \<open>
  C6. Each of the four conversion rates is \<open>0\<close> when its denominator is \<open>0\<close>. When the
  denominator is positive, and the counts are at most \<open>10\<^sup>1\<^sup>1\<close>, the rate is the string of
  \<open>toFixed(2)\<close> for a number of hundredths that is the exact percentage rounded to 2
  decimal places: the two roundings of the double arithmetic, of the quotient and of
  its product with 100, never move the result to another hundredth than a nearest one.
\<close>

theorem conversion_rates_rounded:
  "(total f = 0 \<longrightarrow> newToConnected (conversionRates f) = Num 0
                    \<and> overallConversion (conversionRates f) = Num 0)
   \<and> (connected f = 0 \<longrightarrow> connectedToQualified (conversionRates f) = Num 0)
   \<and> (qualified f = 0 \<longrightarrow> qualifiedToConverted (conversionRates f) = Num 0)
   \<and> (0 < total f \<and> total f \<le> 10 ^ 11 \<and> connected f \<le> 10 ^ 11 \<longrightarrow>
        newToConnected (conversionRates f)
          = Fixed (fixedString False (hundredths (percentage (connected f) (total f))))
        \<and> specRoundedPercentage (connected f) (total f) (hundredths (percentage (connected f) (total f))))
   \<and> (0 < connected f \<and> connected f \<le> 10 ^ 11 \<and> qualified f \<le> 10 ^ 11 \<longrightarrow>
        connectedToQualified (conversionRates f)
          = Fixed (fixedString False (hundredths (percentage (qualified f) (connected f))))
        \<and> specRoundedPercentage (qualified f) (connected f) (hundredths (percentage (qualified f) (connected f))))
   \<and> (0 < qualified f \<and> qualified f \<le> 10 ^ 11 \<and> converted f \<le> 10 ^ 11 \<longrightarrow>
        qualifiedToConverted (conversionRates f)
          = Fixed (fixedString False (hundredths (percentage (converted f) (qualified f))))
        \<and> specRoundedPercentage (converted f) (qualified f) (hundredths (percentage (converted f) (qualified f))))
   \<and> (0 < total f \<and> total f \<le> 10 ^ 11 \<and> converted f \<le> 10 ^ 11 \<longrightarrow>
        overallConversion (conversionRates f)
          = Fixed (fixedString False (hundredths (percentage (converted f) (total f))))
        \<and> specRoundedPercentage (converted f) (total f) (hundredths (percentage (converted f) (total f))))"
proof -
  have zero: "jsNumber 0 = 0"
    by (simp add: jsNumber_def roundDouble_def)
  have rate: "(if 0 < jsNumber b then toFixed2 (percentage a b) else Num 0)
        = Fixed (fixedString False (hundredths (percentage a b)))
      \<and> specRoundedPercentage a b (hundredths (percentage a b))"
    if "0 < b \<and> b \<le> 10 ^ 11 \<and> a \<le> 10 ^ 11" for a b
  proof -
    from that have a: "a \<le> 10 ^ 11" and b: "0 < b" "b \<le> 10 ^ 11"
      by simp_all
    have "0 < jsNumber b"
      using b by (simp only: jsNumber_positive)
    then show ?thesis
      using percentage_rounded[OF a b] by simp
  qed
  show ?thesis
  proof (intro conjI impI)
    assume "total f = 0"
    then show "newToConnected (conversionRates f) = Num 0" "overallConversion (conversionRates f) = Num 0"
      by (simp_all add: conversionRates_def zero)
  next
    assume "connected f = 0"
    then show "connectedToQualified (conversionRates f) = Num 0"
      by (simp add: conversionRates_def zero)
  next
    assume "qualified f = 0"
    then show "qualifiedToConverted (conversionRates f) = Num 0"
      by (simp add: conversionRates_def zero)
  next
    assume h: "0 < total f \<and> total f \<le> 10 ^ 11 \<and> connected f \<le> 10 ^ 11"
    show "newToConnected (conversionRates f)
          = Fixed (fixedString False (hundredths (percentage (connected f) (total f))))"
      using rate[OF h] by (simp add: conversionRates_def)
    show "specRoundedPercentage (connected f) (total f) (hundredths (percentage (connected f) (total f)))"
      using rate[OF h] by simp
  next
    assume h: "0 < connected f \<and> connected f \<le> 10 ^ 11 \<and> qualified f \<le> 10 ^ 11"
    show "connectedToQualified (conversionRates f)
          = Fixed (fixedString False (hundredths (percentage (qualified f) (connected f))))"
      using rate[OF h] by (simp add: conversionRates_def)
    show "specRoundedPercentage (qualified f) (connected f) (hundredths (percentage (qualified f) (connected f)))"
      using rate[OF h] by simp
  next
    assume h: "0 < qualified f \<and> qualified f \<le> 10 ^ 11 \<and> converted f \<le> 10 ^ 11"
    show "qualifiedToConverted (conversionRates f)
          = Fixed (fixedString False (hundredths (percentage (converted f) (qualified f))))"
      using rate[OF h] by (simp add: conversionRates_def)
    show "specRoundedPercentage (converted f) (qualified f) (hundredths (percentage (converted f) (qualified f)))"
      using rate[OF h] by simp
  next
    assume h: "0 < total f \<and> total f \<le> 10 ^ 11 \<and> converted f \<le> 10 ^ 11"
    show "overallConversion (conversionRates f)
          = Fixed (fixedString False (hundredths (percentage (converted f) (total f))))"
      using rate[OF h] by (simp add: conversionRates_def)
    show "specRoundedPercentage (converted f) (total f) (hundredths (percentage (converted f) (total f)))"
      using rate[OF h] by simp
  qed
qed

theorem conversion_rates_rounded_witness:
  "conversionRates docsFunnel =
     \<lparr>newToConnected = Fixed ''47.06'', connectedToQualified = Fixed ''42.50'',
      qualifiedToConverted = Fixed ''29.41'', overallConversion = Fixed ''5.88''\<rparr>
   \<and> specRoundedPercentage 40 85 4706
   \<and> specRoundedPercentage 17 40 4250
   \<and> conversionRates emptyFunnel =
     \<lparr>newToConnected = Num 0, connectedToQualified = Num 0,
      qualifiedToConverted = Num 0, overallConversion = Num 0\<rparr>"
proof -
  note docs = conversion_rates_rounded[of docsFunnel]
  note none = conversion_rates_rounded[of emptyFunnel]
  have rates: "conversionRates docsFunnel =
     \<lparr>newToConnected = Fixed ''47.06'', connectedToQualified = Fixed ''42.50'',
      qualifiedToConverted = Fixed ''29.41'', overallConversion = Fixed ''5.88''\<rparr>"
    by code_simp
  have n1: "hundredths (percentage 40 85) = 4706" and n2: "hundredths (percentage 17 40) = 4250"
    by code_simp+
  have s1: "specRoundedPercentage 40 85 (hundredths (percentage 40 85))"
    using conjunct1[OF conjunct2[OF conjunct2[OF conjunct2[OF docs]]]] by (simp add: docsFunnel_def)
  have s2: "specRoundedPercentage 17 40 (hundredths (percentage 17 40))"
    using conjunct1[OF conjunct2[OF conjunct2[OF conjunct2[OF conjunct2[OF docs]]]]] by (simp add: docsFunnel_def)
  have zeros: "conversionRates emptyFunnel =
     \<lparr>newToConnected = Num 0, connectedToQualified = Num 0,
      qualifiedToConverted = Num 0, overallConversion = Num 0\<rparr>"
    using none by (simp add: emptyFunnel_def conversionRates_def)
  show ?thesis
    using rates s1[unfolded n1] s2[unfolded n2] zeros by (intro conjI)
qed

section \<open>Average progression times\<close>

lemma avg_inputs:
  assumes "stage = connectedAt \<or> stage = qualifiedAt \<or> stage = convertedAt"
  shows "concat (map (\<lambda>v. case v of None \<Rightarrow> [] | Some x \<Rightarrow> [x]) (map (timeTo stage) (filter hasProgressed ls)))
     = map (\<lambda>d. the (stage (statusTimestamps d)) - createdAt d)
         (filter (\<lambda>d. stage (statusTimestamps d) \<noteq> None) ls)"
proof (induction ls)
  case Nil
  then show ?case by simp
next
  case (Cons d ls)
  have "stage (statusTimestamps d) \<noteq> None \<Longrightarrow> hasProgressed d"
    using assms by (auto simp: hasProgressed_def)
  with Cons show ?case
    by (auto simp: timeTo_def)
qed

lemma avg_matched:
  assumes "stage = connectedAt \<or> stage = qualifiedAt \<or> stage = convertedAt"
  shows "avg (map (timeTo stage) (filter hasProgressed ls)) = specMeanTimeTo stage ls"
proof -
  have "avg (map (timeTo stage) (filter hasProgressed ls)) =
      (let nums = map (\<lambda>d. the (stage (statusTimestamps d)) - createdAt d)
                    (filter (\<lambda>d. stage (statusTimestamps d) \<noteq> None) ls)
       in if nums = [] then None else Some (of_int (sum_list nums) / of_nat (length nums)))"
    unfolding avg_def avg_inputs[OF assms] ..
  then show ?thesis
    by (simp add: specMeanTimeTo_def Let_def)
qed

lemma specMeanTimeTo_none:
  "filter hasProgressed ls = [] \<Longrightarrow> stage = connectedAt \<or> stage = qualifiedAt \<or> stage = convertedAt \<Longrightarrow>
   specMeanTimeTo stage ls = None"
  by (auto simp: specMeanTimeTo_def filter_empty_conv hasProgressed_def)

text \<open>
  C8. The averages are computed over the leads that have one of the three stage
  timestamps, and each of them is the mean of \<open>stageTimestamp - createdAt\<close> over exactly
  the leads on which that stage timestamp is set: a lead without it does not enter the
  average of that stage, neither as a zero nor in the count.
\<close>

theorem average_times_over_reached_leads:
  "ComputeAverageProgressionTimes ls = ComputeAverageProgressionTimes (filter hasProgressed ls)
   \<and> avgTimeToConnect (ComputeAverageProgressionTimes ls) = specMeanTimeTo connectedAt ls
   \<and> avgTimeToQualify (ComputeAverageProgressionTimes ls) = specMeanTimeTo qualifiedAt ls
   \<and> avgTimeToConvert (ComputeAverageProgressionTimes ls) = specMeanTimeTo convertedAt ls"
proof (cases "filter hasProgressed ls = []")
  case True
  then show ?thesis
    by (simp add: ComputeAverageProgressionTimes_def averageProgressionTimes_def specMeanTimeTo_none)
next
  case False
  then show ?thesis
    by (simp add: ComputeAverageProgressionTimes_def averageProgressionTimes_def avg_matched Let_def)
qed

theorem average_times_over_reached_leads_witness:
  "length fiveLeads = 5
   \<and> length (filter (\<lambda>d. connectedAt (statusTimestamps d) \<noteq> None) fiveLeads) = 2
   \<and> length (filter hasProgressed fiveLeads) = 3
   \<and> avgTimeToConnect (ComputeAverageProgressionTimes fiveLeads) = Some 3000
   \<and> avgTimeToQualify (ComputeAverageProgressionTimes fiveLeads) = Some 4500
   \<and> avgTimeToConvert (ComputeAverageProgressionTimes fiveLeads) = None"
proof -
  have "specMeanTimeTo connectedAt fiveLeads = Some 3000"
    and "specMeanTimeTo qualifiedAt fiveLeads = Some 4500"
    and "specMeanTimeTo convertedAt fiveLeads = None"
    by (simp_all add: specMeanTimeTo_def fiveLeads_def stamped_def jane_def)
  moreover have "length fiveLeads = 5"
    and "length (filter (\<lambda>d. connectedAt (statusTimestamps d) \<noteq> None) fiveLeads) = 2"
    and "length (filter hasProgressed fiveLeads) = 3"
    by (simp_all add: fiveLeads_def stamped_def hasProgressed_def)
  ultimately show ?thesis
    using conjunct2[OF average_times_over_reached_leads[of fiveLeads]] by simp
qed


section \<open>Bulk status update\<close>

lemma updateStatus_leadId:
  "leadId (docAfter (updateStatus w now s n d)) = leadId d"
proof (cases "s \<in> set validStatuses")
  case False
  then show ?thesis by (simp add: updateStatus_def docAfter_def)
next
  case True
  define d2 where "d2 = (if truthy n \<and> statusHistory (setStatus s d) \<noteq> []
                         then (setStatus s d)\<lparr>statusNotes := n\<rparr> else setStatus s d)"
  have id2: "leadId d2 = leadId d"
    by (simp add: d2_def setStatus_keeps)
  have "leadId (docAfter (save w now d2)) = leadId d2"
    by (rule save_cases[of d2 w now]) (simp_all add: docAfter_def preSave_keeps)
  moreover have "updateStatus w now s n d = save w now d2"
    unfolding d2_def using True by (rule updateStatus_valid)
  ultimately show ?thesis using id2 by simp
qed

lemma updateEach_outcomes:
  assumes "updateEach w c st nt i ls rs es = (rs', es')"
  shows "length rs' + length es' = length rs + length es + length ls
    \<and> set rs \<subseteq> set rs' \<and> set es \<subseteq> set es'
    \<and> (\<forall>k<length ls. case updateStatus w (c (i + k)) st nt (ls ! k) of
           Inr d' \<Rightarrow> successRecord st d' \<in> set rs'
         | Inl (e, d') \<Rightarrow> failureRecord e d' \<in> set es')
    \<and> s_id ` set rs' \<union> f_id ` set es' \<subseteq> s_id ` set rs \<union> f_id ` set es \<union> leadId ` set ls
    \<and> (\<forall>item\<in>set rs'. item \<in> set rs \<or> (oldStatus item = st \<and> newStatus item = st))"
  using assms
proof (induction ls arbitrary: i rs es)
  case Nil
  then show ?case by auto
next
  case (Cons d ls)
  have idd: "leadId (docAfter (updateStatus w (c i) st nt d)) = leadId d"
    by (rule updateStatus_leadId)
  show ?case
  proof (cases "updateStatus w (c i) st nt d")
    case (Inr d')
    with Cons.prems have rest: "updateEach w c st nt (Suc i) ls (rs @ [successRecord st d']) es = (rs', es')"
      by simp
    note ih = Cons.IH[OF rest]
    have id': "s_id (successRecord st d') = leadId d"
      using idd Inr by (simp add: successRecord_def docAfter_def)
    have st': "oldStatus (successRecord st d') = st \<and> newStatus (successRecord st d') = st"
      using updateStatus_Inr(1)[OF Inr] by (simp add: successRecord_def)
    have mem: "successRecord st d' \<in> set rs'"
      using ih by auto
    have items: "\<forall>k<length (d # ls). case updateStatus w (c (i + k)) st nt ((d # ls) ! k) of
           Inr d' \<Rightarrow> successRecord st d' \<in> set rs'
         | Inl (e, d') \<Rightarrow> failureRecord e d' \<in> set es'"
    proof (intro allI impI)
      fix k assume k: "k < length (d # ls)"
      show "case updateStatus w (c (i + k)) st nt ((d # ls) ! k) of
           Inr d' \<Rightarrow> successRecord st d' \<in> set rs'
         | Inl (e, d') \<Rightarrow> failureRecord e d' \<in> set es'"
      proof (cases k)
        case 0
        then show ?thesis using Inr mem by simp
      next
        case (Suc k')
        with k have "k' < length ls" by simp
        with ih have "case updateStatus w (c (Suc i + k')) st nt (ls ! k') of
           Inr d' \<Rightarrow> successRecord st d' \<in> set rs'
         | Inl (e, d') \<Rightarrow> failureRecord e d' \<in> set es'"
          by blast
        then show ?thesis using Suc by simp
      qed
    qed
    have ids: "s_id ` set rs' \<union> f_id ` set es' \<subseteq> s_id ` set rs \<union> f_id ` set es \<union> leadId ` set (d # ls)"
      using ih id' by auto
    have olds: "\<forall>item\<in>set rs'. item \<in> set rs \<or> (oldStatus item = st \<and> newStatus item = st)"
      using ih st' by auto
    have "length rs' + length es' = length rs + length es + length (d # ls)"
      using ih by simp
    moreover have "set rs \<subseteq> set rs'" "set es \<subseteq> set es'"
      using ih by auto
    ultimately show ?thesis
      using items ids olds by blast
  next
    case (Inl p)
    obtain e d' where p: "p = (e, d')"
      by (cases p)
    with Inl Cons.prems have rest: "updateEach w c st nt (Suc i) ls rs (es @ [failureRecord e d']) = (rs', es')"
      by simp
    note ih = Cons.IH[OF rest]
    have id': "f_id (failureRecord e d') = leadId d"
      using idd Inl p by (simp add: failureRecord_def docAfter_def)
    have mem: "failureRecord e d' \<in> set es'"
      using ih by auto
    have items: "\<forall>k<length (d # ls). case updateStatus w (c (i + k)) st nt ((d # ls) ! k) of
           Inr d' \<Rightarrow> successRecord st d' \<in> set rs'
         | Inl (e, d') \<Rightarrow> failureRecord e d' \<in> set es'"
    proof (intro allI impI)
      fix k assume k: "k < length (d # ls)"
      show "case updateStatus w (c (i + k)) st nt ((d # ls) ! k) of
           Inr d' \<Rightarrow> successRecord st d' \<in> set rs'
         | Inl (e, d') \<Rightarrow> failureRecord e d' \<in> set es'"
      proof (cases k)
        case 0
        then show ?thesis using Inl p mem by simp
      next
        case (Suc k')
        with k have "k' < length ls" by simp
        with ih have "case updateStatus w (c (Suc i + k')) st nt (ls ! k') of
           Inr d' \<Rightarrow> successRecord st d' \<in> set rs'
         | Inl (e, d') \<Rightarrow> failureRecord e d' \<in> set es'"
          by blast
        then show ?thesis using Suc by simp
      qed
    qed
    have ids: "s_id ` set rs' \<union> f_id ` set es' \<subseteq> s_id ` set rs \<union> f_id ` set es \<union> leadId ` set (d # ls)"
      using ih id' by auto
    have olds: "\<forall>item\<in>set rs'. item \<in> set rs \<or> (oldStatus item = st \<and> newStatus item = st)"
      using ih by auto
    have "length rs' + length es' = length rs + length es + length (d # ls)"
      using ih by simp
    moreover have "set rs \<subseteq> set rs'" "set es \<subseteq> set es'"
      using ih by auto
    ultimately show ?thesis
      using items ids olds by blast
  qed
qed

text \<open>The two lists the loop returns, in the order of the leads found.\<close>

lemma updateEach_lists:
  "updateEach w c st nt i ls rs es =
     (rs @ map (\<lambda>(k, d). successRecord st (projr (updateStatus w (c k) st nt d)))
             (filter (\<lambda>(k, d). \<not> isl (updateStatus w (c k) st nt d)) (enumerate i ls)),
      es @ map (\<lambda>(k, d). failureRecord (fst (projl (updateStatus w (c k) st nt d)))
                                        (snd (projl (updateStatus w (c k) st nt d))))
             (filter (\<lambda>(k, d). isl (updateStatus w (c k) st nt d)) (enumerate i ls)))"
proof (induction ls arbitrary: i rs es)
  case Nil
  then show ?case by simp
next
  case (Cons d ls)
  show ?case
  proof (cases "updateStatus w (c i) st nt d")
    case (Inr d')
    then show ?thesis by (simp add: Cons.IH)
  next
    case (Inl p)
    then show ?thesis by (cases p) (simp add: Cons.IH)
  qed
qed

lemma bulk_accepted:
  assumes "leadIds \<noteq> []" and "st \<in> set validStatuses" and "length leadIds \<le> 100"
    and "list_all castable leadIds" and "findByIds store leadIds \<noteq> []"
  shows "bulkUpdateLeadStatus castable w clock store leadIds st nt =
     Inr \<lparr>successful = fst (updateEach w clock st nt 0 (findByIds store leadIds) [] []),
          failed = snd (updateEach w clock st nt 0 (findByIds store leadIds) [] []),
          summary = \<lparr>requested = length leadIds,
                     found = length (findByIds store leadIds),
                     n_successful = length (fst (updateEach w clock st nt 0 (findByIds store leadIds) [] [])),
                     n_failed = length (snd (updateEach w clock st nt 0 (findByIds store leadIds) [] []))\<rparr>\<rparr>"
proof -
  have "st \<noteq> []"
    using assms(2) by (auto simp: validStatuses_def)
  then show ?thesis
    using assms by (simp add: bulkUpdateLeadStatus_def Let_def split: prod.splits)
qed

lemma bulk_refused:
  assumes "leadIds \<noteq> []" and "st \<in> set validStatuses" and "length leadIds \<le> 100"
  shows "\<not> list_all castable leadIds \<Longrightarrow>
      bulkUpdateLeadStatus castable w clock store leadIds st nt
        = Inl (ServerError ''Internal server error while updating lead statuses'')"
    and "list_all castable leadIds \<Longrightarrow> findByIds store leadIds = [] \<Longrightarrow>
      bulkUpdateLeadStatus castable w clock store leadIds st nt
        = Inl (NotFound ''No leads found with the provided IDs'')"
proof -
  have st: "st \<noteq> []"
    using assms(2) by (auto simp: validStatuses_def)
  show "\<not> list_all castable leadIds \<Longrightarrow>
      bulkUpdateLeadStatus castable w clock store leadIds st nt
        = Inl (ServerError ''Internal server error while updating lead statuses'')"
    using assms st by (simp add: bulkUpdateLeadStatus_def)
  show "list_all castable leadIds \<Longrightarrow> findByIds store leadIds = [] \<Longrightarrow>
      bulkUpdateLeadStatus castable w clock store leadIds st nt
        = Inl (NotFound ''No leads found with the provided IDs'')"
    using assms st by (simp add: bulkUpdateLeadStatus_def)
qed

lemma bulk_Inr:
  assumes "bulkUpdateLeadStatus castable w clock store leadIds st nt = Inr r"
  shows "leadIds \<noteq> []" and "st \<in> set validStatuses" and "length leadIds \<le> 100"
    and "list_all castable leadIds" and "findByIds store leadIds \<noteq> []"
  using assms by (auto simp: bulkUpdateLeadStatus_def Let_def split: if_splits)

text \<open>
  C4, as the code has it. A well-formed request (1 to 100 identifiers, a valid status)
  has three outcomes. When the lookup cannot cast one of the identifiers, the whole
  request is answered with status 500; when it finds no lead, with status 404.
  Otherwise the request is answered with the two lists, whatever the validation or the
  database does to the single saves. The answer counts the requested identifiers and
  the leads found; the list of successes holds, in order, one record for each lead
  found whose \<open>updateStatus\<close> returned, the list of failures one record with the error
  for each lead found whose \<open>updateStatus\<close> threw; the two lists together have as many
  records as leads were found; and an identifier that resolves to no lead has no record
  at all: it shows only in the difference between \<open>requested\<close> and \<open>found\<close>.
\<close>

theorem bulk_collects_outcomes_of_found_leads:
  assumes "leadIds \<noteq> []" and "st \<in> set validStatuses" and "length leadIds \<le> 100"
  shows "(\<not> list_all castable leadIds \<longrightarrow>
       bulkUpdateLeadStatus castable w clock store leadIds st nt
         = Inl (ServerError ''Internal server error while updating lead statuses''))
    \<and> (list_all castable leadIds \<and> findByIds store leadIds = [] \<longrightarrow>
       bulkUpdateLeadStatus castable w clock store leadIds st nt
         = Inl (NotFound ''No leads found with the provided IDs''))
    \<and> (list_all castable leadIds \<and> findByIds store leadIds \<noteq> [] \<longrightarrow>
       (\<exists>r. bulkUpdateLeadStatus castable w clock store leadIds st nt = Inr r
         \<and> requested (summary r) = length leadIds
         \<and> found (summary r) = length (findByIds store leadIds)
         \<and> n_successful (summary r) = length (successful r)
         \<and> n_failed (summary r) = length (failed r)
         \<and> n_successful (summary r) + n_failed (summary r) = found (summary r)
         \<and> successful r =
             map (\<lambda>(k, d). successRecord st (projr (updateStatus w (clock k) st nt d)))
               (filter (\<lambda>(k, d). \<not> isl (updateStatus w (clock k) st nt d))
                  (enumerate 0 (findByIds store leadIds)))
         \<and> failed r =
             map (\<lambda>(k, d). failureRecord (fst (projl (updateStatus w (clock k) st nt d)))
                                         (snd (projl (updateStatus w (clock k) st nt d))))
               (filter (\<lambda>(k, d). isl (updateStatus w (clock k) st nt d))
                  (enumerate 0 (findByIds store leadIds)))
         \<and> (\<forall>k<length (findByIds store leadIds).
               case updateStatus w (clock k) st nt (findByIds store leadIds ! k) of
                 Inr d' \<Rightarrow> successRecord st d' \<in> set (successful r)
               | Inl (e, d') \<Rightarrow> failureRecord e d' \<in> set (failed r))
         \<and> s_id ` set (successful r) \<union> f_id ` set (failed r) \<subseteq> leadId ` set store \<inter> set leadIds))"
proof (intro conjI impI)
  assume "\<not> list_all castable leadIds"
  with assms show "bulkUpdateLeadStatus castable w clock store leadIds st nt
         = Inl (ServerError ''Internal server error while updating lead statuses'')"
    by (rule bulk_refused)
next
  assume "list_all castable leadIds \<and> findByIds store leadIds = []"
  then have "list_all castable leadIds" "findByIds store leadIds = []"
    by simp_all
  with assms show "bulkUpdateLeadStatus castable w clock store leadIds st nt
         = Inl (NotFound ''No leads found with the provided IDs'')"
    by (rule bulk_refused)
next
  assume "list_all castable leadIds \<and> findByIds store leadIds \<noteq> []"
  then have cast: "list_all castable leadIds" and some: "findByIds store leadIds \<noteq> []"
    by simp_all
  define leads where "leads = findByIds store leadIds"
  obtain rs es where loop: "updateEach w clock st nt 0 leads [] [] = (rs, es)"
    by (cases "updateEach w clock st nt 0 leads [] []")
  note out = updateEach_outcomes[OF loop]
  have lists: "rs = map (\<lambda>(k, d). successRecord st (projr (updateStatus w (clock k) st nt d)))
               (filter (\<lambda>(k, d). \<not> isl (updateStatus w (clock k) st nt d)) (enumerate 0 leads))"
    "es = map (\<lambda>(k, d). failureRecord (fst (projl (updateStatus w (clock k) st nt d)))
                                         (snd (projl (updateStatus w (clock k) st nt d))))
               (filter (\<lambda>(k, d). isl (updateStatus w (clock k) st nt d)) (enumerate 0 leads))"
    using loop unfolding updateEach_lists by simp_all
  define r where "r = \<lparr>successful = rs, failed = es,
          summary = \<lparr>requested = length leadIds, found = length leads,
                     n_successful = length rs, n_failed = length es\<rparr>\<rparr>"
  have sel: "successful r = rs" "failed r = es"
    by (simp_all add: r_def)
  have res: "bulkUpdateLeadStatus castable w clock store leadIds st nt = Inr r"
    using bulk_accepted[OF assms cast some, of w clock nt] loop by (simp add: leads_def r_def)
  have total: "length rs + length es = length leads"
    using out by simp
  have items: "\<forall>k<length leads.
          case updateStatus w (clock k) st nt (leads ! k) of
            Inr d' \<Rightarrow> successRecord st d' \<in> set rs
          | Inl (e, d') \<Rightarrow> failureRecord e d' \<in> set es"
    using out by simp
  have "leadId ` set leads \<subseteq> leadId ` set store \<inter> set leadIds"
    by (auto simp: leads_def findByIds_def hydrate_def)
  moreover have "s_id ` set rs \<union> f_id ` set es \<subseteq> leadId ` set leads"
    using out by simp
  ultimately have ids: "s_id ` set rs \<union> f_id ` set es \<subseteq> leadId ` set store \<inter> set leadIds"
    by (rule order_trans[rotated])
  show "\<exists>r. bulkUpdateLeadStatus castable w clock store leadIds st nt = Inr r
         \<and> requested (summary r) = length leadIds
         \<and> found (summary r) = length (findByIds store leadIds)
         \<and> n_successful (summary r) = length (successful r)
         \<and> n_failed (summary r) = length (failed r)
         \<and> n_successful (summary r) + n_failed (summary r) = found (summary r)
         \<and> successful r =
             map (\<lambda>(k, d). successRecord st (projr (updateStatus w (clock k) st nt d)))
               (filter (\<lambda>(k, d). \<not> isl (updateStatus w (clock k) st nt d))
                  (enumerate 0 (findByIds store leadIds)))
         \<and> failed r =
             map (\<lambda>(k, d). failureRecord (fst (projl (updateStatus w (clock k) st nt d)))
                                         (snd (projl (updateStatus w (clock k) st nt d))))
               (filter (\<lambda>(k, d). isl (updateStatus w (clock k) st nt d))
                  (enumerate 0 (findByIds store leadIds)))
         \<and> (\<forall>k<length (findByIds store leadIds).
               case updateStatus w (clock k) st nt (findByIds store leadIds ! k) of
                 Inr d' \<Rightarrow> successRecord st d' \<in> set (successful r)
               | Inl (e, d') \<Rightarrow> failureRecord e d' \<in> set (failed r))
         \<and> s_id ` set (successful r) \<union> f_id ` set (failed r) \<subseteq> leadId ` set store \<inter> set leadIds"
  proof (intro exI[of _ r] conjI)
    show "bulkUpdateLeadStatus castable w clock store leadIds st nt = Inr r"
      by (rule res)
    show "requested (summary r) = length leadIds"
      by (simp add: r_def)
    show "found (summary r) = length (findByIds store leadIds)"
      by (simp add: r_def leads_def)
    show "n_successful (summary r) = length (successful r)"
      by (simp add: r_def)
    show "n_failed (summary r) = length (failed r)"
      by (simp add: r_def)
    show "n_successful (summary r) + n_failed (summary r) = found (summary r)"
      using total by (simp add: r_def)
    show "successful r =
             map (\<lambda>(k, d). successRecord st (projr (updateStatus w (clock k) st nt d)))
               (filter (\<lambda>(k, d). \<not> isl (updateStatus w (clock k) st nt d))
                  (enumerate 0 (findByIds store leadIds)))"
      unfolding sel leads_def[symmetric] by (rule lists)
    show "failed r =
             map (\<lambda>(k, d). failureRecord (fst (projl (updateStatus w (clock k) st nt d)))
                                         (snd (projl (updateStatus w (clock k) st nt d))))
               (filter (\<lambda>(k, d). isl (updateStatus w (clock k) st nt d))
                  (enumerate 0 (findByIds store leadIds)))"
      unfolding sel leads_def[symmetric] by (rule lists)
    show "\<forall>k<length (findByIds store leadIds).
          case updateStatus w (clock k) st nt (findByIds store leadIds ! k) of
            Inr d' \<Rightarrow> successRecord st d' \<in> set (successful r)
          | Inl (e, d') \<Rightarrow> failureRecord e d' \<in> set (failed r)"
      unfolding sel leads_def[symmetric] by (rule items)
    show "s_id ` set (successful r) \<union> f_id ` set (failed r) \<subseteq> leadId ` set store \<inter> set leadIds"
      unfolding sel by (rule ids)
  qed
qed

theorem bulk_collects_outcomes_of_found_leads_witness:
  "\<not> isl (bulkUpdateLeadStatus hex24 rejectId2 atNoon threeLeads [id1, id2, id3, id9] ''converted'' None)
   \<and> summary (projr (bulkUpdateLeadStatus hex24 rejectId2 atNoon threeLeads
         [id1, id2, id3, id9] ''converted'' None))
       = \<lparr>requested = 4, found = 3, n_successful = 2, n_failed = 1\<rparr>
   \<and> map s_id (successful (projr (bulkUpdateLeadStatus hex24 rejectId2 atNoon threeLeads
         [id1, id2, id3, id9] ''converted'' None))) = [id1, id3]
   \<and> map f_id (failed (projr (bulkUpdateLeadStatus hex24 rejectId2 atNoon threeLeads
         [id1, id2, id3, id9] ''converted'' None))) = [id2]"
proof -
  have h1: "[id1, id2, id3, id9] \<noteq> []"
    by simp
  have h2: "''converted'' \<in> set validStatuses"
    by (simp add: validStatuses_def)
  have h3: "length [id1, id2, id3, id9] \<le> 100"
    by simp
  have h4: "list_all hex24 [id1, id2, id3, id9] \<and> findByIds threeLeads [id1, id2, id3, id9] \<noteq> []"
    by code_simp
  from conjunct2[OF conjunct2[OF bulk_collects_outcomes_of_found_leads[OF h1 h2 h3,
        where castable = hex24 and store = threeLeads and w = rejectId2 and clock = atNoon and nt = None]]] h4
  obtain r where r: "bulkUpdateLeadStatus hex24 rejectId2 atNoon threeLeads
        [id1, id2, id3, id9] ''converted'' None = Inr r"
    by blast
  have answered: "\<not> isl (bulkUpdateLeadStatus hex24 rejectId2 atNoon threeLeads
        [id1, id2, id3, id9] ''converted'' None)"
    by (simp add: r)
  have rest: "summary (projr (bulkUpdateLeadStatus hex24 rejectId2 atNoon threeLeads
         [id1, id2, id3, id9] ''converted'' None))
       = \<lparr>requested = 4, found = 3, n_successful = 2, n_failed = 1\<rparr>
   \<and> map s_id (successful (projr (bulkUpdateLeadStatus hex24 rejectId2 atNoon threeLeads
         [id1, id2, id3, id9] ''converted'' None))) = [id1, id3]
   \<and> map f_id (failed (projr (bulkUpdateLeadStatus hex24 rejectId2 atNoon threeLeads
         [id1, id2, id3, id9] ''converted'' None))) = [id2]"
    by code_simp
  from answered rest show ?thesis
    by (rule conjI)
qed

text \<open>
  The scenario of the specification: three identifiers of stored leads and one that
  resolves to nothing, moved to \<open>converted\<close>; every update goes through. The answer
  counts no failure, where the specification expects one.
\<close>

theorem bulk_missing_id_counterexample:
  "map_sum id summary (bulkUpdateLeadStatus hex24 acceptAll atNoon threeLeads
       [id1, id2, id3, id9] ''converted'' None)
     = Inr \<lparr>requested = 4, found = 3, n_successful = 3, n_failed = 0\<rparr>
   \<and> failed (projr (bulkUpdateLeadStatus hex24 acceptAll atNoon threeLeads
       [id1, id2, id3, id9] ''converted'' None)) = []
   \<and> n_failed (summary (projr (bulkUpdateLeadStatus hex24 acceptAll atNoon threeLeads
       [id1, id2, id3, id9] ''converted'' None))) \<noteq> 1"
  by code_simp

text \<open>
  Three more runs of the handler. A request for the status a stored lead already holds
  modifies nothing, so no write is issued and the lead is a success even on a database
  that would reject its write. A stored lead whose derived name has 51 characters is
  loaded with every path, so its save validates the name and the lead is a failure even
  on a database that accepts every write. An identifier that the lookup cannot cast
  fails the whole request.
\<close>

lemma bulk_no_write_when_unmodified:
  "map_sum id summary (bulkUpdateLeadStatus hex24 rejectId2 atNoon threeLeads [id2] ''new'' None)
     = Inr \<lparr>requested = 1, found = 1, n_successful = 1, n_failed = 0\<rparr>"
  by code_simp

lemma bulk_loaded_lead_is_validated:
  "map_sum id (\<lambda>r. (summary r, map f_id (failed r), map f_error (failed r)))
     (bulkUpdateLeadStatus hex24 acceptAll atNoon
        [jane, projr (Construct acceptAll id2 1000 longInput), jane\<lparr>leadId := id3\<rparr>]
        [id1, id2, id3] ''converted'' None)
     = Inr (\<lparr>requested = 3, found = 3, n_successful = 2, n_failed = 1\<rparr>,
            [id2], [ValidationError [''name'']])"
  by code_simp

lemma bulk_malformed_identifier:
  "bulkUpdateLeadStatus hex24 acceptAll atNoon threeLeads [id1, ''42''] ''converted'' None
     = Inl (ServerError ''Internal server error while updating lead statuses'')"
  by code_simp

text \<open>
  C10. In the answer of a bulk update, every success record has in \<open>oldStatus\<close> the
  status that was requested, which is also its \<open>newStatus\<close>: the record reads the status
  of the lead after \<open>updateStatus\<close> has changed it.
\<close>

theorem bulk_oldStatus_is_requested_status:
  assumes "bulkUpdateLeadStatus castable w clock store leadIds st nt = Inr r"
    and "item \<in> set (successful r)"
  shows "oldStatus item = st \<and> newStatus item = st"
proof -
  obtain rs es where loop: "updateEach w clock st nt 0 (findByIds store leadIds) [] [] = (rs, es)"
    by (cases "updateEach w clock st nt 0 (findByIds store leadIds) [] []")
  have "bulkUpdateLeadStatus castable w clock store leadIds st nt =
     Inr \<lparr>successful = rs, failed = es,
          summary = \<lparr>requested = length leadIds, found = length (findByIds store leadIds),
                     n_successful = length rs, n_failed = length es\<rparr>\<rparr>"
    using bulk_accepted[OF bulk_Inr[OF assms(1)], of w clock nt] loop by simp
  with assms(1) have "r = \<lparr>successful = rs, failed = es,
          summary = \<lparr>requested = length leadIds, found = length (findByIds store leadIds),
                     n_successful = length rs, n_failed = length es\<rparr>\<rparr>"
    by simp
  then have "successful r = rs"
    by simp
  with assms(2) updateEach_outcomes[OF loop] show ?thesis
    by auto
qed

theorem bulk_oldStatus_is_requested_status_witness:
  "\<not> isl (bulkUpdateLeadStatus hex24 acceptAll atNoon threeLeads [id1] ''converted'' None)
   \<and> map status (findByIds threeLeads [id1]) = [''new'']
   \<and> map s_id (successful (projr (bulkUpdateLeadStatus hex24 acceptAll atNoon threeLeads [id1] ''converted'' None)))
       = [id1]
   \<and> oldStatus (hd (successful (projr (bulkUpdateLeadStatus hex24 acceptAll atNoon threeLeads [id1] ''converted'' None))))
       = ''converted''"
proof -
  have h: "bulkUpdateLeadStatus hex24 acceptAll atNoon threeLeads [id1] ''converted'' None
        = Inr (projr (bulkUpdateLeadStatus hex24 acceptAll atNoon threeLeads [id1] ''converted'' None))"
    by code_simp
  have facts: "\<not> isl (bulkUpdateLeadStatus hex24 acceptAll atNoon threeLeads [id1] ''converted'' None)
   \<and> map status (findByIds threeLeads [id1]) = [''new'']
   \<and> map s_id (successful (projr (bulkUpdateLeadStatus hex24 acceptAll atNoon threeLeads [id1] ''converted'' None)))
       = [id1]"
    by code_simp
  then have "hd (successful (projr (bulkUpdateLeadStatus hex24 acceptAll atNoon threeLeads [id1] ''converted'' None)))
      \<in> set (successful (projr (bulkUpdateLeadStatus hex24 acceptAll atNoon threeLeads [id1] ''converted'' None)))"
    by (intro hd_in_set) auto
  from bulk_oldStatus_is_requested_status[OF h this] facts show ?thesis
    by blast
qed
section \<open>Phone normalisation\<close>

lemma stripNonDigits_fixed:
  "list_all isDigit s \<Longrightarrow> stripNonDigits b s = s"
  by (induction s arbitrary: b) auto

lemma stripNonDigits_filter:
  "stripNonDigits False s = filter isDigit s"
  by (induction s) auto

text \<open>
  C9. Phone normalisation is idempotent: formatting a formatted phone number gives the
  same string. The normal form keeps a \<open>+\<close> in first position and, apart from it, the
  digits of the input in their order.
\<close>

theorem formatPhoneNumber_idempotent:
  "formatPhoneNumber (formatPhoneNumber p) = formatPhoneNumber p
   \<and> formatPhoneNumber p =
       (case p of [] \<Rightarrow> [] | c # cs \<Rightarrow> if c = CHR ''+'' then c # filter isDigit cs else filter isDigit p)"
proof (cases p)
  case Nil
  then show ?thesis by (simp add: formatPhoneNumber_def)
next
  case (Cons c cs)
  have rest: "stripNonDigits b (filter isDigit cs) = filter isDigit cs" for b
    by (rule stripNonDigits_fixed) (simp add: list_all_iff)
  show ?thesis
    using Cons rest by (auto simp: formatPhoneNumber_def stripNonDigits_filter)
qed

end
